theory Spec2Isabelle
  imports Main "HOL-Library.Sublist" "HOL-Library.AList"
begin

section \<open>Python values used by evtxview.py\<close>

text \<open>
  The exceptions that the modelled code can raise. Every raise of the source is a
  branch of the model returning \<open>Inl\<close> of one of them.

  A Python string is a \<open>string\<close> of the model, each \<open>char\<close> being the code point of
  one character; the type holds the code points below 256.
\<close>

datatype py_error =
    KeyError | ValueError | TypeError | IndexError | AttributeError
  | ZeroDivisionError | AssertionError | XMLSyntaxError

text \<open>
  \<open>s.find(sub)\<close>: the lowest index at which \<open>sub\<close> starts in \<open>s\<close>, or \<open>-1\<close>.
\<close>

fun py_find :: "string \<Rightarrow> string \<Rightarrow> int" where
  "py_find [] sub = (if sub = [] then 0 else - 1)"
| "py_find (x # xs) sub =
     (if prefix sub (x # xs) then 0
      else (let i = py_find xs sub in if i = - 1 then - 1 else i + 1))"

text \<open>
  \<open>s.rfind(c)\<close> for a one-character \<open>c\<close>: the highest index holding \<open>c\<close>, or \<open>-1\<close>.
\<close>

fun py_rfind :: "string \<Rightarrow> char \<Rightarrow> int" where
  "py_rfind [] c = - 1"
| "py_rfind (x # xs) c =
     (let i = py_rfind xs c in
      if i \<noteq> - 1 then i + 1 else if x = c then 0 else - 1)"

text \<open>
  The slice \<open>s[i:]\<close>: a negative \<open>i\<close> counts from the end, and both ends are clamped.
\<close>

definition slice_from :: "string \<Rightarrow> int \<Rightarrow> string" where
  "slice_from s i = (if i < 0 then drop (nat (int (length s) + i)) s else drop (nat i) s)"

text \<open>\<open>sub in s\<close> on strings: \<open>sub\<close> occurs as a contiguous piece of \<open>s\<close>.\<close>

fun py_in :: "string \<Rightarrow> string \<Rightarrow> bool" where
  "py_in sub [] = (sub = [])"
| "py_in sub (x # xs) = (prefix sub (x # xs) \<or> py_in sub xs)"

section \<open>The element tree delivered by lxml\<close>

text \<open>
  \<open>etree.XML\<close> returns the root element of the document. An element has a tag, an
  attribute dictionary, an optional text and its child nodes in document order.
  Iterating over an element also yields the comments and processing instructions
  among its children; their \<open>tag\<close> is a factory function, not a string, so a
  string method called on it raises \<open>AttributeError\<close>. They have no children.
\<close>

datatype etree =
    Element string "string \<rightharpoonup> string" "string option" "etree list"
  | NonElement

fun etree_tag :: "etree \<Rightarrow> string option" where
  "etree_tag (Element t a x cs) = Some t"
| "etree_tag NonElement = None"

fun etree_attrib :: "etree \<Rightarrow> string \<rightharpoonup> string" where
  "etree_attrib (Element t a x cs) = a"
| "etree_attrib NonElement = Map.empty"

fun etree_text :: "etree \<Rightarrow> string option" where
  "etree_text (Element t a x cs) = x"
| "etree_text NonElement = None"

fun etree_children :: "etree \<Rightarrow> etree list" where
  "etree_children (Element t a x cs) = cs"
| "etree_children NonElement = []"

section \<open>XmlElement\<close>

text \<open>
  An \<open>XmlElement\<close> holds the dictionary \<open>__children\<close> (kept as an association list in
  insertion order; an assignment to a key already present replaces its value) and
  the wrapped node \<open>__node\<close>.
\<close>

datatype XmlElement = MkXmlElement "(string \<times> XmlElement) list" etree

fun xe_children :: "XmlElement \<Rightarrow> (string \<times> XmlElement) list" where
  "xe_children (MkXmlElement d n) = d"

fun xe_node :: "XmlElement \<Rightarrow> etree" where
  "xe_node (MkXmlElement d n) = n"

text \<open>The key computed in the loop of \<open>XmlElement.__init__\<close>: \<open>tag[tag.rfind('}')+1:]\<close>.\<close>

definition child_key :: "string \<Rightarrow> string" where
  "child_key t = (let idx = py_rfind t (CHR ''}'') in slice_from t (idx + 1))"

text \<open>
  \<open>XmlElement.__init__\<close>. \<open>init_children\<close> is its \<open>for child in root\<close> loop, with the
  dictionary built so far as accumulator.
\<close>

fun XmlElement_init :: "etree \<Rightarrow> py_error + XmlElement"
  and init_children :: "etree list \<Rightarrow> (string \<times> XmlElement) list
                          \<Rightarrow> py_error + (string \<times> XmlElement) list" where
  "XmlElement_init (Element t a x cs) =
     (case init_children cs [] of
        Inl e \<Rightarrow> Inl e
      | Inr d \<Rightarrow> Inr (MkXmlElement d (Element t a x cs)))"
| "XmlElement_init NonElement = Inr (MkXmlElement [] NonElement)"
| "init_children [] d = Inr d"
| "init_children (child # rest) d =
     (case etree_tag child of
        None \<Rightarrow> Inl AttributeError
      | Some t \<Rightarrow>
          (case XmlElement_init child of
             Inl e \<Rightarrow> Inl e
           | Inr x \<Rightarrow> init_children rest (AList.update (child_key t) x d)))"

text \<open>The properties \<open>text\<close> and \<open>attrib\<close>, and \<open>__getitem__\<close>.\<close>

definition xe_text :: "XmlElement \<Rightarrow> string option" where
  "xe_text e = etree_text (xe_node e)"

definition xe_attrib :: "XmlElement \<Rightarrow> string \<rightharpoonup> string" where
  "xe_attrib e = etree_attrib (xe_node e)"

definition getitem :: "XmlElement \<Rightarrow> string \<Rightarrow> py_error + XmlElement" where
  "getitem e item =
     (case map_of (xe_children e) item of None \<Rightarrow> Inl KeyError | Some c \<Rightarrow> Inr c)"

text \<open>
  The reading of "namespace stripped" in words: what follows the last \<open>}\<close> of the
  tag, the whole tag when it holds no \<open>}\<close>.
\<close>

definition after_last_brace :: "string \<Rightarrow> string" where
  "after_last_brace t = rev (takeWhile (\<lambda>c. c \<noteq> CHR ''}'') (rev t))"

section \<open>EventRecord\<close>

text \<open>
  One item yielded by \<open>PyEvtxParser.records()\<close>: a dictionary with the keys
  \<open>event_record_id\<close>, \<open>timestamp\<close> and \<open>data\<close> (the record rendered as XML text).
\<close>

record raw_record =
  event_record_id :: int
  timestamp :: string
  data :: string

text \<open>
  The private fields \<open>__id\<close>, \<open>__timestamp\<close>, \<open>__data\<close>, \<open>__parsed\<close> and \<open>__attrib\<close>.
  A value of \<open>__attrib\<close> is a string or Python's \<open>None\<close> (the \<open>text\<close> of an element
  without text).
\<close>

record EventRecord =
  er_id :: int
  er_timestamp :: string
  er_data :: string
  er_parsed :: bool
  er_attrib :: "string \<rightharpoonup> string option"

definition EventRecord_init :: "raw_record \<Rightarrow> EventRecord" where
  "EventRecord_init record =
     \<lparr> er_id = event_record_id record,
       er_timestamp = timestamp record,
       er_data = data record,
       er_parsed = False,
       er_attrib = Map.empty \<rparr>"

text \<open>The properties \<open>id\<close>, \<open>timestamp\<close> and \<open>data\<close>.\<close>

definition EventRecord_id :: "EventRecord \<Rightarrow> int" where
  "EventRecord_id r = er_id r"

definition EventRecord_timestamp :: "EventRecord \<Rightarrow> string" where
  "EventRecord_timestamp r = er_timestamp r"

definition EventRecord_data :: "EventRecord \<Rightarrow> string" where
  "EventRecord_data r = er_data r"

text \<open>
  \<open>etree.XML\<close> belongs to lxml, not to this program: it is a parameter of the model,
  a function from the text to the root element or to the exception it raises.
\<close>

type_synonym xml_parser = "string \<Rightarrow> py_error + etree"

text \<open>\<open>root["System"][name]\<close>, as evaluated in each assignment of \<open>__parse_data\<close>.\<close>

definition system_child :: "XmlElement \<Rightarrow> string \<Rightarrow> py_error + XmlElement" where
  "system_child root name =
     (case getitem root ''System'' of
        Inl e \<Rightarrow> Inl e
      | Inr sys \<Rightarrow> getitem sys name)"

text \<open>
  \<open>EventRecord.__parse_data\<close>. The result pairs what the call returns (\<open>Inr ()\<close>) or
  raises (\<open>Inl\<close>) with the record as the call leaves it; the assignments made before
  an exception stay in place.
\<close>

definition parse_data :: "xml_parser \<Rightarrow> EventRecord \<Rightarrow> (py_error + unit) \<times> EventRecord" where
  "parse_data XML r =
     (if er_parsed r then (Inr (), r)
      else
        let idx = py_find (er_data r) ''?>'';
            r1 = (if idx \<noteq> - 1 then r\<lparr>er_data := slice_from (er_data r) (idx + 2)\<rparr> else r)
        in
        case XML (er_data r1) of
          Inl e \<Rightarrow> (Inl e, r1)
        | Inr tree \<Rightarrow>
            (case XmlElement_init tree of
               Inl e \<Rightarrow> (Inl e, r1)
             | Inr root \<Rightarrow>
                 (case system_child root ''EventID'' of
                    Inl e \<Rightarrow> (Inl e, r1)
                  | Inr ev \<Rightarrow>
                      let r2 = r1\<lparr>er_attrib := (er_attrib r1)(''EventID'' \<mapsto> xe_text ev)\<rparr> in
                      (case system_child root ''Level'' of
                         Inl e \<Rightarrow> (Inl e, r2)
                       | Inr lv \<Rightarrow>
                           let r3 = r2\<lparr>er_attrib := (er_attrib r2)(''Level'' \<mapsto> xe_text lv)\<rparr> in
                           (case system_child root ''Provider'' of
                              Inl e \<Rightarrow> (Inl e, r3)
                            | Inr pv \<Rightarrow>
                                (case xe_attrib pv ''Name'' of
                                   None \<Rightarrow> (Inl KeyError, r3)
                                 | Some name \<Rightarrow>
                                     (Inr (),
                                      r3\<lparr>er_attrib :=
                                            (er_attrib r3)(''Provider'' \<mapsto> Some name)\<rparr>)))))))"

text \<open>\<open>self.__attrib[key]\<close> after \<open>self.__parse_data()\<close>: the body shared by the properties.\<close>

definition parsed_attrib ::
  "xml_parser \<Rightarrow> string \<Rightarrow> EventRecord \<Rightarrow> (py_error + string option) \<times> EventRecord" where
  "parsed_attrib XML key r =
     (case parse_data XML r of
        (Inl e, r') \<Rightarrow> (Inl e, r')
      | (Inr u, r') \<Rightarrow>
          (case er_attrib r' key of
             None \<Rightarrow> (Inl KeyError, r')
           | Some v \<Rightarrow> (Inr v, r')))"

definition EventID :: "xml_parser \<Rightarrow> EventRecord \<Rightarrow> (py_error + string option) \<times> EventRecord" where
  "EventID XML r = parsed_attrib XML ''EventID'' r"

definition Provider :: "xml_parser \<Rightarrow> EventRecord \<Rightarrow> (py_error + string option) \<times> EventRecord" where
  "Provider XML r = parsed_attrib XML ''Provider'' r"

text \<open>
  \<open>int(x)\<close> for \<open>x\<close> a string or \<open>None\<close>, as CPython computes it. \<open>None\<close> raises
  \<open>TypeError\<close>. A string is stripped of surrounding whitespace and must then be an
  optional sign followed by decimal digits, single underscores allowed between
  digits, else \<open>ValueError\<close>. Among the code points below 256 the decimal digits
  are \<open>0\<close> to \<open>9\<close>, and the whitespace that \<open>int\<close> skips is 9 to 13, 32, 133 and
  160 (the separators 28 to 31 are not skipped). A numeral of more than
  \<open>int_max_str_digits\<close> digits, signs and underscores not counted, raises
  \<open>ValueError\<close>; 4300 is the interpreter's default limit.
\<close>

definition int_max_str_digits :: nat where
  "int_max_str_digits = 4300"

definition is_digit :: "char \<Rightarrow> bool" where
  "is_digit c = (48 \<le> (of_char c :: nat) \<and> (of_char c :: nat) \<le> 57)"

definition digit_val :: "char \<Rightarrow> int" where
  "digit_val c = int (of_char c) - 48"

definition is_space :: "char \<Rightarrow> bool" where
  "is_space c = ((of_char c :: nat) \<in> {9, 10, 11, 12, 13, 32, 133, 160})"

fun py_digits :: "string \<Rightarrow> int \<Rightarrow> int option" where
  "py_digits [] acc = Some acc"
| "py_digits [c] acc = (if is_digit c then Some (10 * acc + digit_val c) else None)"
| "py_digits (c # d # ds) acc =
     (if is_digit c then py_digits (d # ds) (10 * acc + digit_val c)
      else if c = CHR ''_'' \<and> is_digit d then py_digits ds (10 * (acc) + digit_val d)
      else None)"

definition py_unsigned :: "string \<Rightarrow> int option" where
  "py_unsigned s =
     (case s of
        [] \<Rightarrow> None
      | c # cs \<Rightarrow>
          if is_digit c \<and> length (filter is_digit s) \<le> int_max_str_digits
          then py_digits cs (digit_val c) else None)"

definition py_strip :: "string \<Rightarrow> string" where
  "py_strip s = rev (dropWhile is_space (rev (dropWhile is_space s)))"

definition py_int :: "string option \<Rightarrow> py_error + int" where
  "py_int x =
     (case x of
        None \<Rightarrow> Inl TypeError
      | Some s \<Rightarrow>
          (case py_strip s of
             [] \<Rightarrow> Inl ValueError
           | c # cs \<Rightarrow>
               (if c = CHR ''-'' then
                  (case py_unsigned cs of None \<Rightarrow> Inl ValueError | Some n \<Rightarrow> Inr (- n))
                else if c = CHR ''+'' then
                  (case py_unsigned cs of None \<Rightarrow> Inl ValueError | Some n \<Rightarrow> Inr n)
                else
                  (case py_unsigned (c # cs) of None \<Rightarrow> Inl ValueError | Some n \<Rightarrow> Inr n))))"

text \<open>The dictionary \<open>levels\<close> of the property \<open>Level\<close>.\<close>

definition levels :: "int \<rightharpoonup> string" where
  "levels = map_of
     [(0, ''LogAlways''), (1, ''Critical''), (2, ''Error''),
      (3, ''Warning''), (4, ''Informational''), (5, ''Verbose'')]"

definition Level :: "xml_parser \<Rightarrow> EventRecord \<Rightarrow> (py_error + string) \<times> EventRecord" where
  "Level XML r =
     (case parsed_attrib XML ''Level'' r of
        (Inl e, r') \<Rightarrow> (Inl e, r')
      | (Inr v, r') \<Rightarrow>
          (case py_int v of
             Inl e \<Rightarrow> (Inl e, r')
           | Inr level_id \<Rightarrow>
               (case levels level_id of
                  None \<Rightarrow> (Inl KeyError, r')
                | Some name \<Rightarrow> (Inr name, r'))))"

section \<open>EvtxViewModel\<close>

text \<open>
  The fields \<open>__filename\<close>, \<open>__records\<close> (a dictionary from record id to
  \<open>EventRecord\<close>), \<open>__record_ids\<close> and \<open>_highlighted_row\<close>. An \<open>EventRecord\<close> object
  lives in \<open>__records\<close> only, so the dictionary is also the store of these objects:
  what mutates a record writes the new value back under its id.
\<close>

record EvtxViewModel =
  vm_filename :: string
  vm_records :: "int \<rightharpoonup> EventRecord"
  vm_record_ids :: "int list"
  vm_highlighted_row :: "int option"

text \<open>
  \<open>PyEvtxParser(filename).records()\<close> belongs to the evtx library: it is a parameter
  of the model, a function from the file name to the list of the items it yields or
  to the exception it raises.
\<close>

type_synonym evtx_parser = "string \<Rightarrow> py_error + raw_record list"

text \<open>\<open>load_data\<close>; \<open>load_records\<close> is its loop.\<close>

fun load_records :: "raw_record list \<Rightarrow> EvtxViewModel \<Rightarrow> EvtxViewModel" where
  "load_records [] m = m"
| "load_records (record # rest) m =
     load_records rest
       (m\<lparr> vm_records := (vm_records m)(event_record_id record \<mapsto> EventRecord_init record),
           vm_record_ids := vm_record_ids m @ [event_record_id record] \<rparr>)"

definition load_data :: "evtx_parser \<Rightarrow> EvtxViewModel \<Rightarrow> py_error + EvtxViewModel" where
  "load_data PyEvtxParser m =
     (case PyEvtxParser (vm_filename m) of
        Inl e \<Rightarrow> Inl e
      | Inr parser_records \<Rightarrow>
          (let m' = load_records parser_records m
           in Inr (m'\<lparr> vm_record_ids := sort (vm_record_ids m') \<rparr>)))"

text \<open>
  \<open>EvtxViewModel.__init__\<close>: empty containers, \<open>load_data\<close>, no highlighted row. The
  field \<open>__chunks\<close> is set to 0 and never read; the model leaves it out.
\<close>

definition EvtxViewModel_init :: "evtx_parser \<Rightarrow> string \<Rightarrow> py_error + EvtxViewModel" where
  "EvtxViewModel_init PyEvtxParser filename =
     (case load_data PyEvtxParser
             \<lparr> vm_filename = filename, vm_records = Map.empty, vm_record_ids = [],
               vm_highlighted_row = None \<rparr> of
        Inl e \<Rightarrow> Inl e
      | Inr m \<Rightarrow> Inr (m\<lparr> vm_highlighted_row := None \<rparr>))"

definition rowCount :: "EvtxViewModel \<Rightarrow> int" where
  "rowCount m = int (length (vm_record_ids m))"

text \<open>\<open>get_records\<close>: \<open>[self.__records[rid] for rid in self.__record_ids]\<close>.\<close>

fun records_of :: "(int \<rightharpoonup> EventRecord) \<Rightarrow> int list \<Rightarrow> py_error + EventRecord list" where
  "records_of d [] = Inr []"
| "records_of d (rid # rids) =
     (case d rid of
        None \<Rightarrow> Inl KeyError
      | Some r \<Rightarrow>
          (case records_of d rids of
             Inl e \<Rightarrow> Inl e
           | Inr rs \<Rightarrow> Inr (r # rs)))"

definition get_records :: "EvtxViewModel \<Rightarrow> py_error + EventRecord list" where
  "get_records m = records_of (vm_records m) (vm_record_ids m)"

text \<open>
  \<open>set_highlighted_row\<close> and \<open>remove_highlight\<close>; the \<open>dataChanged\<close> signals only make
  the view repaint.
\<close>

definition set_highlighted_row :: "int option \<Rightarrow> EvtxViewModel \<Rightarrow> EvtxViewModel" where
  "set_highlighted_row row m = m\<lparr> vm_highlighted_row := row \<rparr>"

definition remove_highlight :: "EvtxViewModel \<Rightarrow> EvtxViewModel" where
  "remove_highlight m = set_highlighted_row None m"




text \<open>
  \<open>EvtxViewModel.data\<close>. A \<open>QModelIndex\<close> is its row and column; it is valid when
  neither is negative. The result is an empty \<open>QVariant\<close>, the displayed value or
  the highlight brush.
\<close>

datatype item_role = DisplayRole | BackgroundRole | OtherRole


definition isValid :: "int \<times> int \<Rightarrow> bool" where
  "isValid index = (0 \<le> fst index \<and> 0 \<le> snd index)"


section \<open>EvtxView\<close>

text \<open>
  The table view: its model, the current index of the view and what it has printed.
  \<open>list.index(x)\<close> gives the first position of \<open>x\<close> or raises \<open>ValueError\<close>.
\<close>

record EvtxView =
  ev_evtxViewModel :: EvtxViewModel
  ev_currentIndex :: "(int \<times> int) option"

text \<open>
  What the program shows outside its windows' state: the lines it prints (the
  "not found" line of \<open>scroll_to_record_id\<close>, the current page and its view
  printed by \<open>action_search\<close>, named by address, \<open>None\<close> without a current page)
  and the information boxes it pops up (title and text).
\<close>

datatype output_event =
    Print_Record_ID_not_found int
  | Print_widget "nat option"
  | Print_evtx_view nat
  | Information string string

fun list_index :: "int list \<Rightarrow> int \<Rightarrow> py_error + int" where
  "list_index [] x = Inl ValueError"
| "list_index (y # ys) x =
     (if y = x then Inr 0
      else (case list_index ys x of Inl e \<Rightarrow> Inl e | Inr i \<Rightarrow> Inr (i + 1)))"

definition EvtxView_init :: "evtx_parser \<Rightarrow> string \<Rightarrow> py_error + EvtxView" where
  "EvtxView_init PyEvtxParser filename =
     (case EvtxViewModel_init PyEvtxParser filename of
        Inl e \<Rightarrow> Inl e
      | Inr m \<Rightarrow> Inr \<lparr> ev_evtxViewModel = m, ev_currentIndex = None \<rparr>)"

text \<open>
  \<open>scroll_to_record_id\<close>: the view as the call leaves it, and the lines it printed.
  The \<open>ValueError\<close> of \<open>index\<close> is caught, so the call never raises.
\<close>

definition scroll_to_record_id :: "int \<Rightarrow> EvtxView \<Rightarrow> EvtxView \<times> output_event list" where
  "scroll_to_record_id record_id v =
     (let model = ev_evtxViewModel v in
      case list_index (vm_record_ids model) record_id of
        Inl e \<Rightarrow> (v, [Print_Record_ID_not_found record_id])
      | Inr row \<Rightarrow>
          (let model' = set_highlighted_row (Some row) model;
               index = (row, 0)
           in if isValid index
              then (v\<lparr> ev_evtxViewModel := model', ev_currentIndex := Some index \<rparr>, [])
              else (v\<lparr> ev_evtxViewModel := model' \<rparr>, [])))"

section \<open>MainWindow\<close>

text \<open>
  The \<open>QTabWidget\<close> of Qt, as far as the program uses it: the pages in tab order and
  the current index (\<open>-1\<close> without pages). \<open>addTab\<close> appends a page and returns its
  index, and the first page added becomes current. \<open>setCurrentIndex\<close> with an index
  out of range changes nothing. \<open>removeTab\<close> with an index out of range changes
  nothing; otherwise the pages behind the removed one move down by one, a current
  page behind it stays current, and when the current page is removed its right
  neighbour becomes current, or the new last page when there is none.
\<close>

record 'w tab_widget =
  tw_pages :: "'w list"
  tw_currentIndex :: int

definition addTab :: "'w \<Rightarrow> 'w tab_widget \<Rightarrow> int \<times> 'w tab_widget" where
  "addTab page t =
     (int (length (tw_pages t)),
      \<lparr> tw_pages = tw_pages t @ [page],
        tw_currentIndex = (if tw_pages t = [] then 0 else tw_currentIndex t) \<rparr>)"

definition setCurrentIndex :: "int \<Rightarrow> 'w tab_widget \<Rightarrow> 'w tab_widget" where
  "setCurrentIndex index t =
     (if 0 \<le> index \<and> index < int (length (tw_pages t))
      then t\<lparr> tw_currentIndex := index \<rparr> else t)"

definition removeTab :: "int \<Rightarrow> 'w tab_widget \<Rightarrow> 'w tab_widget" where
  "removeTab index t =
     (if 0 \<le> index \<and> index < int (length (tw_pages t)) then
        (let pages = take (nat index) (tw_pages t) @ drop (Suc (nat index)) (tw_pages t);
             cur = tw_currentIndex t
         in \<lparr> tw_pages = pages,
              tw_currentIndex =
                (if index < cur then cur - 1
                 else if index = cur \<and> int (length pages) \<le> cur then int (length pages) - 1
                 else cur) \<rparr>)
      else t)"

definition currentWidget :: "'w tab_widget \<Rightarrow> 'w option" where
  "currentWidget t =
     (if 0 \<le> tw_currentIndex t \<and> tw_currentIndex t < int (length (tw_pages t))
      then Some (tw_pages t ! nat (tw_currentIndex t)) else None)"

text \<open>
  The main window. \<open>EvtxView\<close> objects are shared between the pages of the tab
  widget and \<open>cur_evtx_view\<close>, so they live in a store \<open>mw_views\<close> and are named by
  their address, a position in the store; a page is the address of its \<open>evtx_view\<close>.
  \<open>__files\<close> is a dictionary in insertion order. \<open>search_msgbox\<close> and
  \<open>cur_evtx_view\<close> are only declared in \<open>__init__\<close>: they are unset (\<open>None\<close>) until
  assigned. Of the message box the model keeps whether it is open and the two
  numbers of its text "Found: .., Current: ..".
\<close>

record msgbox =
  mb_open :: bool
  mb_found :: int
  mb_current :: int

record MainWindow =
  mw_files :: "(string \<times> int) list"
  mw_tab_widget :: "nat tab_widget"
  mw_views :: "EvtxView list"
  searchInEVTData :: bool
  search_msgbox :: "msgbox option"
  cur_evtx_view :: "nat option"
  cur_search_index :: int
  found :: "(int \<times> string) list"

text \<open>
  \<open>MainWindow.__init__\<close>; the two \<open>removeTab(0)\<close> calls empty the tab widget of the
  layout. The search toggle is a menu action the user checks.
\<close>

definition MainWindow_init :: MainWindow where
  "MainWindow_init =
     \<lparr> mw_files = [],
       mw_tab_widget = \<lparr> tw_pages = [], tw_currentIndex = - 1 \<rparr>,
       mw_views = [],
       searchInEVTData = False,
       search_msgbox = None,
       cur_evtx_view = None,
       cur_search_index = 0,
       found = [] \<rparr>"

text \<open>
  \<open>open_file\<close>. The new page takes the file's base name as its label; the label
  plays no part in what follows and is left out.
\<close>

definition open_file :: "evtx_parser \<Rightarrow> string \<Rightarrow> MainWindow \<Rightarrow> (py_error + unit) \<times> MainWindow" where
  "open_file PyEvtxParser filename w =
     (case map_of (mw_files w) filename of
        Some index \<Rightarrow>
          (if index = - 1 then (Inl AssertionError, w)
           else (Inr (), w\<lparr> mw_tab_widget := setCurrentIndex index (mw_tab_widget w) \<rparr>))
      | None \<Rightarrow>
          (case EvtxView_init PyEvtxParser filename of
             Inl e \<Rightarrow> (Inl e, w)
           | Inr evtx_view \<Rightarrow>
               (let a = length (mw_views w);
                    (index, tabs) = addTab a (mw_tab_widget w);
                    w1 = w\<lparr> mw_views := mw_views w @ [evtx_view],
                            mw_tab_widget := tabs,
                            mw_files := AList.update filename index (mw_files w) \<rparr>
                in if index = - 1 then (Inl AssertionError, w1)
                   else (Inr (), w1\<lparr> mw_tab_widget := setCurrentIndex index tabs \<rparr>))))"

text \<open>\<open>close_tab\<close>: the entries of \<open>__files\<close> whose index differs from \<open>index\<close> are kept.\<close>

definition close_tab :: "int \<Rightarrow> MainWindow \<Rightarrow> MainWindow" where
  "close_tab index w =
     w\<lparr> mw_tab_widget := removeTab index (mw_tab_widget w),
        mw_files := filter (\<lambda>(filename, idx). idx \<noteq> index) (mw_files w) \<rparr>"

text \<open>
  \<open>x in s\<close> for \<open>s\<close> a string or \<open>None\<close> (\<open>None\<close> is not iterable), \<open>xs[i]\<close> on a
  list, and the condition of the search loop of \<open>action_search\<close> with Python's
  left-to-right, short-circuit \<open>or\<close>/\<open>and\<close>.
\<close>

definition py_contains :: "string \<Rightarrow> string option \<Rightarrow> py_error + bool" where
  "py_contains x s = (case s of None \<Rightarrow> Inl TypeError | Some str \<Rightarrow> Inr (py_in x str))"

definition py_index :: "'a list \<Rightarrow> int \<Rightarrow> py_error + 'a" where
  "py_index xs i =
     (if 0 \<le> i \<and> i < int (length xs) then Inr (xs ! nat i)
      else if i < 0 \<and> - int (length xs) \<le> i then Inr (xs ! nat (int (length xs) + i))
      else Inl IndexError)"

definition search_condition ::
  "xml_parser \<Rightarrow> string \<Rightarrow> bool \<Rightarrow> EventRecord \<Rightarrow> (py_error + bool) \<times> EventRecord" where
  "search_condition XML text checked record =
     (case Provider XML record of
        (Inl e, r1) \<Rightarrow> (Inl e, r1)
      | (Inr provider, r1) \<Rightarrow>
          (case py_contains text provider of
             Inl e \<Rightarrow> (Inl e, r1)
           | Inr True \<Rightarrow> (Inr True, r1)
           | Inr False \<Rightarrow>
               (case EventID XML r1 of
                  (Inl e, r2) \<Rightarrow> (Inl e, r2)
                | (Inr event_id, r2) \<Rightarrow>
                    (case py_contains text event_id of
                       Inl e \<Rightarrow> (Inl e, r2)
                     | Inr True \<Rightarrow> (Inr True, r2)
                     | Inr False \<Rightarrow>
                         (Inr (checked \<and> py_in text (EventRecord_data r2)), r2)))))"

text \<open>
  The loop \<open>for record in model.get_records()\<close>. The list holds the objects of
  \<open>__records\<close> in the order of \<open>__record_ids\<close>, so the loop runs over the ids and
  reads and writes each object in the dictionary \<open>d\<close>.
\<close>

fun search_records ::
  "xml_parser \<Rightarrow> string \<Rightarrow> bool \<Rightarrow> int list \<Rightarrow> (int \<rightharpoonup> EventRecord) \<Rightarrow> (int \<times> string) list
     \<Rightarrow> (py_error + (int \<times> string) list) \<times> (int \<rightharpoonup> EventRecord)" where
  "search_records XML text checked [] d fnd = (Inr fnd, d)"
| "search_records XML text checked (rid # rids) d fnd =
     (case d rid of
        None \<Rightarrow> (Inl KeyError, d)
      | Some record \<Rightarrow>
          (case search_condition XML text checked record of
             (Inl e, record') \<Rightarrow> (Inl e, d(rid \<mapsto> record'))
           | (Inr hit, record') \<Rightarrow>
               search_records XML text checked rids (d(rid \<mapsto> record'))
                 (if hit
                  then fnd @ [(EventRecord_id record', EventRecord_timestamp record')]
                  else fnd)))"

text \<open>The search over one model: \<open>get_records\<close>, then the loop.\<close>

definition search_model ::
  "xml_parser \<Rightarrow> string \<Rightarrow> bool \<Rightarrow> EvtxViewModel
     \<Rightarrow> (py_error + (int \<times> string) list) \<times> EvtxViewModel" where
  "search_model XML text checked model =
     (case get_records model of
        Inl e \<Rightarrow> (Inl e, model)
      | Inr records \<Rightarrow>
          (case search_records XML text checked (vm_record_ids model) (vm_records model) [] of
             (res, d) \<Rightarrow> (res, model\<lparr> vm_records := d \<rparr>)))"

text \<open>\<open>display_search_results\<close>, and the handler \<open>close_searchbox\<close> of its Close button.\<close>

definition display_search_results :: "MainWindow \<Rightarrow> MainWindow" where
  "display_search_results w =
     (let w1 = w\<lparr> cur_search_index := 0 \<rparr>
      in w1\<lparr> search_msgbox :=
               Some \<lparr> mb_open = True, mb_found = int (length (found w1)),
                      mb_current = cur_search_index w1 + 1 \<rparr> \<rparr>)"

definition close_searchbox :: "MainWindow \<Rightarrow> (py_error + unit) \<times> MainWindow" where
  "close_searchbox w =
     (case cur_evtx_view w of
        None \<Rightarrow> (Inl AttributeError, w)
      | Some a \<Rightarrow>
          (let v = mw_views w ! a;
               w1 = w\<lparr> mw_views :=
                         (mw_views w)[a := v\<lparr> ev_evtxViewModel :=
                                               remove_highlight (ev_evtxViewModel v) \<rparr>] \<rparr>
           in case search_msgbox w1 of
                None \<Rightarrow> (Inl AttributeError, w1)
              | Some box \<Rightarrow> (Inr (), w1\<lparr> search_msgbox := Some (box\<lparr> mb_open := False \<rparr>) \<rparr>)))"

text \<open>
  \<open>action_search\<close>. The answer of the input dialog, the pair \<open>(text, ok)\<close>, is an
  argument. The result is what the call raises or returns, the window as the call
  leaves it, and its output.
\<close>

definition action_search ::
  "xml_parser \<Rightarrow> string \<times> bool \<Rightarrow> MainWindow \<Rightarrow> (py_error + unit) \<times> MainWindow \<times> output_event list" where
  "action_search XML dialog w =
     (if mw_files w = [] then (Inr (), w, [Information ''Search'' ''No file opened!''])
      else
        let (text, ok) = dialog in
        if ok \<and> text \<noteq> [] then
          (case currentWidget (mw_tab_widget w) of
             None \<Rightarrow> (Inl AttributeError, w, [Print_widget None])
           | Some a \<Rightarrow>
               (let out = [Print_widget (Some a), Print_evtx_view a];
                    evtx_view = mw_views w ! a
                in case search_model XML text (searchInEVTData w) (ev_evtxViewModel evtx_view) of
                     (Inl e, model') \<Rightarrow>
                       (Inl e,
                        w\<lparr> mw_views := (mw_views w)[a := evtx_view\<lparr> ev_evtxViewModel := model' \<rparr>] \<rparr>,
                        out)
                   | (Inr fnd, model') \<Rightarrow>
                       (let w1 = w\<lparr> mw_views :=
                                       (mw_views w)[a := evtx_view\<lparr> ev_evtxViewModel := model' \<rparr>] \<rparr>
                        in if fnd \<noteq> []
                           then (Inr (),
                                 display_search_results (w1\<lparr> found := fnd, cur_evtx_view := Some a \<rparr>),
                                 out)
                           else (Inr (), w1,
                                 out @ [Information ''Search Results'' ''Nothing found.'']))))
        else (Inr (), w, []))"

text \<open>
  \<open>navigate_search\<close>. \<open>new_search_index\<close> is its \<open>if\<close>/\<open>elif\<close> on the direction: the
  index it leaves in \<open>cur_search_index\<close>, and whether \<open>%=\<close> raised on an empty
  \<open>found\<close>.
\<close>

definition new_search_index :: "int \<Rightarrow> int \<Rightarrow> nat \<Rightarrow> (py_error + unit) \<times> int" where
  "new_search_index direction cur n =
     (if direction = - 1 then
        (let i = cur - 1 in if i < 0 then (Inr (), int n - 1) else (Inr (), i))
      else if direction = 1 then
        (let i = cur + 1 in if n = 0 then (Inl ZeroDivisionError, i) else (Inr (), i mod int n))
      else (Inr (), cur))"

definition navigate_search :: "int \<Rightarrow> MainWindow \<Rightarrow> (py_error + unit) \<times> MainWindow \<times> output_event list" where
  "navigate_search direction w =
     (case new_search_index direction (cur_search_index w) (length (found w)) of
        (Inl e, i) \<Rightarrow> (Inl e, w\<lparr> cur_search_index := i \<rparr>, [])
      | (Inr u, i) \<Rightarrow>
          (let w1 = w\<lparr> cur_search_index := i \<rparr> in
           case cur_evtx_view w1 of
             None \<Rightarrow> (Inl AttributeError, w1, [])
           | Some a \<Rightarrow>
               (case py_index (found w1) (cur_search_index w1) of
                  Inl e \<Rightarrow> (Inl e, w1, [])
                | Inr entry \<Rightarrow>
                    (let (v, out) = scroll_to_record_id (fst entry) (mw_views w1 ! a);
                         w2 = w1\<lparr> mw_views := (mw_views w1)[a := v] \<rparr>
                     in case search_msgbox w2 of
                          None \<Rightarrow> (Inl AttributeError, w2, out)
                        | Some box \<Rightarrow>
                            (Inr (),
                             w2\<lparr> search_msgbox :=
                                    Some (box\<lparr> mb_found := int (length (found w2)),
                                               mb_current := cur_search_index w2 + 1 \<rparr>) \<rparr>,
                             out)))))"

text \<open>A run of Previous/Next clicks, stopping at the first exception.\<close>

fun navigate_all :: "int list \<Rightarrow> MainWindow \<Rightarrow> (py_error + unit) \<times> MainWindow" where
  "navigate_all [] w = (Inr (), w)"
| "navigate_all (direction # rest) w =
     (case navigate_search direction w of
        (Inl e, w', out) \<Rightarrow> (Inl e, w')
      | (Inr u, w', out) \<Rightarrow> navigate_all rest w')"

section \<open>The search in words\<close>

text \<open>
  What the search is to find, said without the code of the record and of the
  search loop. The raw text behind the prolog is what follows the first \<open>?>\<close> of
  the text, the whole text when it holds no \<open>?>\<close>.
\<close>

fun behind_first :: "string \<Rightarrow> string \<Rightarrow> string option" where
  "behind_first sub [] = (if sub = [] then Some [] else None)"
| "behind_first sub (x # xs) =
     (if prefix sub (x # xs) then Some (drop (length sub) (x # xs)) else behind_first sub xs)"

definition without_prolog :: "string \<Rightarrow> string" where
  "without_prolog s = (case behind_first ''?>'' s of None \<Rightarrow> s | Some t \<Rightarrow> t)"

text \<open>
  The convenience fields are read off the element tree: the child of a node with a
  given name is its last child element whose tag, namespace stripped, is that name.
  An event has the fields when its \<open>System\<close> child has a \<open>Provider\<close> with a \<open>Name\<close>
  attribute, an \<open>EventID\<close> with a text and a \<open>Level\<close>; the fields are the provider
  name and the text of the event id.
\<close>

definition local_name :: "etree \<Rightarrow> string option" where
  "local_name n = map_option after_last_brace (etree_tag n)"

definition child_named :: "string \<Rightarrow> etree \<Rightarrow> etree option" where
  "child_named name n =
     (case filter (\<lambda>c. local_name c = Some name) (etree_children n) of
        [] \<Rightarrow> None
      | c # cs \<Rightarrow> Some (last (c # cs)))"

definition event_fields :: "etree \<Rightarrow> (string \<times> string) option" where
  "event_fields tree =
     (case child_named ''System'' tree of
        None \<Rightarrow> None
      | Some sys \<Rightarrow>
          (case (child_named ''Provider'' sys, child_named ''EventID'' sys,
                 child_named ''Level'' sys) of
             (Some pv, Some ev, Some lv) \<Rightarrow>
               (case (etree_attrib pv ''Name'', etree_text ev) of
                  (Some p, Some e) \<Rightarrow> Some (p, e)
                | _ \<Rightarrow> None)
           | _ \<Rightarrow> None))"

text \<open>A tree of elements only: no comment or processing instruction below the root.\<close>

fun elements_below :: "etree \<Rightarrow> bool" where
  "elements_below (Element t a x cs) = (\<forall>c \<in> set cs. etree_tag c \<noteq> None \<and> elements_below c)"
| "elements_below NonElement = True"

text \<open>
  A text decodes when the XML parser returns a tree of elements for it that has the
  fields. A raw text is a well-formed event when what stands behind its prolog
  holds no further \<open>?>\<close> and decodes. A record matches a search term when the term
  occurs in its provider name, or in the text of its event id, or, the raw-text
  toggle being on, in its raw text behind the prolog.
\<close>

definition decoded :: "xml_parser \<Rightarrow> string \<Rightarrow> (string \<times> string) option" where
  "decoded XML t =
     (case XML t of
        Inl e \<Rightarrow> None
      | Inr tree \<Rightarrow> if elements_below tree then event_fields tree else None)"

definition well_formed_event :: "xml_parser \<Rightarrow> string \<Rightarrow> bool" where
  "well_formed_event XML s =
     (\<not> py_in ''?>'' (without_prolog s) \<and> decoded XML (without_prolog s) \<noteq> None)"

definition term_matches :: "xml_parser \<Rightarrow> string \<Rightarrow> bool \<Rightarrow> EventRecord \<Rightarrow> bool" where
  "term_matches XML text checked r =
     (let body = without_prolog (EventRecord_data r) in
      case decoded XML body of
        None \<Rightarrow> False
      | Some (p, e) \<Rightarrow> py_in text p \<or> py_in text e \<or> (checked \<and> py_in text body))"

section \<open>Sample inputs\<close>

text \<open>
  The XML text of an event with a provider name, an event id and a level, the
  element tree lxml builds from that text, and a parser that knows one text: it
  returns the given tree for it and raises \<open>XMLSyntaxError\<close> for any other.
\<close>

definition event_text :: "string \<Rightarrow> string \<Rightarrow> string \<Rightarrow> string" where
  "event_text provider event_id level =
     ''<Event><System><Provider Name='' @ [CHR 0x27] @ provider @ [CHR 0x27] @ ''/><EventID>''
       @ event_id @ ''</EventID><Level>'' @ level @ ''</Level></System></Event>''"

definition event_tree :: "string \<Rightarrow> string \<Rightarrow> string \<Rightarrow> etree" where
  "event_tree provider event_id level =
     Element ''Event'' Map.empty None
       [Element ''System'' Map.empty None
          [Element ''Provider'' [''Name'' \<mapsto> provider] None [],
           Element ''EventID'' Map.empty (Some event_id) [],
           Element ''Level'' Map.empty (Some level) []]]"

definition parser_of :: "string \<Rightarrow> etree \<Rightarrow> xml_parser" where
  "parser_of known tree = (\<lambda>s. if s = known then Inr tree else Inl XMLSyntaxError)"

section \<open>Verified properties\<close>

subsection \<open>XmlElement: children are stored under the tag without its namespace\<close>

lemma py_rfind_ge: "- 1 \<le> py_rfind t c"
  by (induction t) (auto simp: Let_def)

lemma py_rfind_none: "py_rfind t c = - 1 \<longleftrightarrow> c \<notin> set t"
proof (induction t)
  case Nil
  show ?case by simp
next
  case (Cons x xs)
  then show ?case using py_rfind_ge [of xs c] by (auto simp: Let_def)
qed

text \<open>The key the code computes is the text after the last closing brace.\<close>

lemma child_key_after_last_brace: "child_key t = after_last_brace t"
proof (induction t)
  case Nil
  show ?case by (simp add: child_key_def after_last_brace_def slice_from_def)
next
  case (Cons x xs)
  let ?c = "CHR ''}''"
  let ?i = "py_rfind xs ?c"
  have ge: "- 1 \<le> ?i" by (rule py_rfind_ge)
  show ?case
  proof (cases "?i = - 1")
    case True
    then have notin: "?c \<notin> set xs" by (simp add: py_rfind_none)
    have tw: "takeWhile (\<lambda>c. c \<noteq> ?c) (rev xs @ [x]) = rev xs @ takeWhile (\<lambda>c. c \<noteq> ?c) [x]"
      by (rule takeWhile_append2) (use notin in auto)
    show ?thesis using True
      by (simp add: child_key_def after_last_brace_def slice_from_def Let_def tw)
  next
    case False
    then have "?c \<in> set xs" by (simp add: py_rfind_none)
    then have tw: "takeWhile (\<lambda>c. c \<noteq> ?c) (rev xs @ [x]) = takeWhile (\<lambda>c. c \<noteq> ?c) (rev xs)"
      by (simp add: takeWhile_append1)
    have "nat (?i + 1 + 1) = Suc (nat (?i + 1))" using ge by simp
    then show ?thesis using False ge tw Cons.IH
      by (simp add: child_key_def after_last_brace_def slice_from_def Let_def)
  qed
qed

text \<open>\<open>after_last_brace\<close> is what its name says, in both cases.\<close>

lemma after_last_brace_none: "CHR ''}'' \<notin> set t \<Longrightarrow> after_last_brace t = t"
proof -
  assume a: "CHR ''}'' \<notin> set t"
  have "takeWhile (\<lambda>c. c \<noteq> CHR ''}'') (rev t) = rev t"
    by (rule takeWhile_eq_all_conv [THEN iffD2]) (use a in auto)
  then show ?thesis by (simp only: after_last_brace_def rev_rev_ident)
qed

lemma after_last_brace_suffix:
  "CHR ''}'' \<notin> set s \<Longrightarrow> after_last_brace (p @ CHR ''}'' # s) = s"
proof -
  assume a: "CHR ''}'' \<notin> set s"
  have "takeWhile (\<lambda>c. c \<noteq> CHR ''}'') (rev s @ CHR ''}'' # rev p) = rev s"
    using a by (auto simp: takeWhile_tail)
  then show ?thesis by (simp add: after_last_brace_def)
qed

text \<open>The loop of the constructor: which keys it leaves, and what each one holds.\<close>

lemma init_children_tags:
  "init_children cs d = Inr d' \<Longrightarrow> c \<in> set cs \<Longrightarrow> \<exists>t. etree_tag c = Some t"
  by (induction cs arbitrary: d) (auto split: option.splits sum.splits)

lemma init_children_keys:
  "init_children cs d = Inr d' \<Longrightarrow>
     fst ` set d' = fst ` set d \<union> {child_key t | t c. c \<in> set cs \<and> etree_tag c = Some t}"
proof (induction cs arbitrary: d)
  case Nil
  then show ?case by simp
next
  case (Cons child rest)
  then show ?case
    by (auto split: option.splits sum.splits simp: dom_update)
qed

lemma init_children_lookup:
  "init_children cs d = Inr d' \<Longrightarrow>
     map_of d' k = map_of d k \<or>
     (\<exists>c \<in> set cs. \<exists>t x. etree_tag c = Some t \<and> child_key t = k \<and>
          XmlElement_init c = Inr x \<and> map_of d' k = Some x)"
proof (induction cs arbitrary: d)
  case Nil
  then show ?case by simp
next
  case (Cons child rest)
  from Cons.prems obtain t x where t: "etree_tag child = Some t"
    and x: "XmlElement_init child = Inr x"
    and r: "init_children rest (AList.update (child_key t) x d) = Inr d'"
    by (auto split: option.splits sum.splits)
  from Cons.IH [OF r] show ?case
  proof
    assume "map_of d' k = map_of (AList.update (child_key t) x d) k"
    then show ?thesis using t x by (auto simp: update_conv')
  next
    assume "\<exists>c \<in> set rest. \<exists>t x. etree_tag c = Some t \<and> child_key t = k \<and>
          XmlElement_init c = Inr x \<and> map_of d' k = Some x"
    then show ?thesis by auto
  qed
qed

lemma init_children_stored:
  "init_children cs d = Inr d' \<Longrightarrow> c \<in> set cs \<Longrightarrow> etree_tag c = Some t \<Longrightarrow>
     \<exists>c' \<in> set cs. \<exists>t' x. etree_tag c' = Some t' \<and> child_key t' = child_key t \<and>
          XmlElement_init c' = Inr x \<and> map_of d' (child_key t) = Some x"
proof (induction cs arbitrary: d)
  case Nil
  then show ?case by simp
next
  case (Cons child rest)
  from Cons.prems(1) obtain t0 x0 where t0: "etree_tag child = Some t0"
    and x0: "XmlElement_init child = Inr x0"
    and r: "init_children rest (AList.update (child_key t0) x0 d) = Inr d'"
    by (auto split: option.splits sum.splits)
  show ?case
  proof (cases "c \<in> set rest")
    case True
    from Cons.IH [OF r True Cons.prems(3)] show ?thesis by auto
  next
    case False
    then have c: "c = child" using Cons.prems(2) by simp
    then have tt: "t0 = t" using t0 Cons.prems(3) by simp
    from init_children_lookup [OF r, of "child_key t"] show ?thesis
    proof
      assume "map_of d' (child_key t) = map_of (AList.update (child_key t0) x0 d) (child_key t)"
      then have "map_of d' (child_key t) = Some x0" using tt by (simp add: update_conv')
      then show ?thesis using t0 x0 tt by auto
    next
      assume "\<exists>c\<in>set rest. \<exists>ta x. etree_tag c = Some ta \<and> child_key ta = child_key t \<and>
          XmlElement_init c = Inr x \<and> map_of d' (child_key t) = Some x"
      then show ?thesis by auto
    qed
  qed
qed

text \<open>
  C8. When the constructor succeeds on a node, every child of the node can be
  looked up under its tag with the namespace stripped (the text after the last
  closing brace of the raw tag, the raw tag when it has none), the lookup gives the
  \<open>XmlElement\<close> of a child with that stripped tag, and the stripped tags of the
  children are the only keys of the dictionary.
\<close>

theorem children_stored_under_stripped_tag:
  assumes "XmlElement_init root = Inr xe"
  shows "(\<forall>c \<in> set (etree_children root). \<exists>t c' t' x.
            etree_tag c = Some t \<and> c' \<in> set (etree_children root) \<and> etree_tag c' = Some t' \<and>
            after_last_brace t' = after_last_brace t \<and> XmlElement_init c' = Inr x \<and>
            getitem xe (after_last_brace t) = Inr x)
       \<and> fst ` set (xe_children xe) =
            {after_last_brace t | t c. c \<in> set (etree_children root) \<and> etree_tag c = Some t}"
proof (cases root)
  case NonElement
  then show ?thesis using assms by auto
next
  case (Element tg a tx cs)
  with assms obtain d where d: "init_children cs [] = Inr d" and xe: "xe = MkXmlElement d root"
    by (auto split: sum.splits)
  have keys: "fst ` set d = {after_last_brace t | t c. c \<in> set cs \<and> etree_tag c = Some t}"
    using init_children_keys [OF d] by (simp add: child_key_after_last_brace)
  have stored: "\<exists>t c' t' x.
            etree_tag c = Some t \<and> c' \<in> set cs \<and> etree_tag c' = Some t' \<and>
            after_last_brace t' = after_last_brace t \<and> XmlElement_init c' = Inr x \<and>
            getitem xe (after_last_brace t) = Inr x" if c: "c \<in> set cs" for c
  proof -
    from init_children_tags [OF d c] obtain t where t: "etree_tag c = Some t" ..
    from init_children_stored [OF d c t] obtain c' t' x where
      "c' \<in> set cs" "etree_tag c' = Some t'" "child_key t' = child_key t"
      "XmlElement_init c' = Inr x" "map_of d (child_key t) = Some x" by blast
    then show ?thesis using t xe
      by (auto simp: getitem_def child_key_after_last_brace)
  qed
  show ?thesis using keys stored Element xe by simp
qed

theorem children_stored_under_stripped_tag_witness:
  "XmlElement_init
     (Element ''Event'' Map.empty None
        [Element ''{ns}System'' Map.empty None [], Element ''Plain'' Map.empty (Some ''x'') []])
   = Inr (MkXmlElement
            [(''System'', MkXmlElement [] (Element ''{ns}System'' Map.empty None [])),
             (''Plain'', MkXmlElement [] (Element ''Plain'' Map.empty (Some ''x'') []))]
            (Element ''Event'' Map.empty None
               [Element ''{ns}System'' Map.empty None [], Element ''Plain'' Map.empty (Some ''x'') []]))
   \<and> fst ` set [(''System'', MkXmlElement [] (Element ''{ns}System'' Map.empty None [])),
                (''Plain'', MkXmlElement [] (Element ''Plain'' Map.empty (Some ''x'') []))]
       = {after_last_brace t | t c.
            c \<in> set [Element ''{ns}System'' Map.empty None [], Element ''Plain'' Map.empty (Some ''x'') []]
            \<and> etree_tag c = Some t}"
proof -
  let ?root = "Element ''Event'' Map.empty None
        [Element ''{ns}System'' Map.empty None [], Element ''Plain'' Map.empty (Some ''x'') []]"
  let ?xe = "MkXmlElement
            [(''System'', MkXmlElement [] (Element ''{ns}System'' Map.empty None [])),
             (''Plain'', MkXmlElement [] (Element ''Plain'' Map.empty (Some ''x'') []))] ?root"
  have h: "XmlElement_init ?root = Inr ?xe"
    by (simp add: child_key_def slice_from_def)
  from children_stored_under_stripped_tag [OF h] show ?thesis using h by simp
qed

subsection \<open>Search navigation: the current position stays inside the result list\<close>

lemma new_search_index_range:
  assumes "0 < n" "0 \<le> cur" "cur < int n"
  shows "fst (new_search_index d cur n) = Inr ()"
    and "0 \<le> snd (new_search_index d cur n)"
    and "snd (new_search_index d cur n) < int n"
  using assms by (auto simp: new_search_index_def Let_def)

lemma navigate_search_frame:
  "navigate_search d w = (res, w', out) \<Longrightarrow>
     found w' = found w \<and>
     cur_search_index w' = snd (new_search_index d (cur_search_index w) (length (found w)))"
  by (auto simp: navigate_search_def Let_def split: prod.splits sum.splits option.splits)

lemma navigate_all_range:
  "found w \<noteq> [] \<Longrightarrow> 0 \<le> cur_search_index w \<Longrightarrow> cur_search_index w < int (length (found w)) \<Longrightarrow>
   navigate_all dirs w = (res, w') \<Longrightarrow>
     found w' = found w \<and> 0 \<le> cur_search_index w' \<and> cur_search_index w' < int (length (found w))"
proof (induction dirs arbitrary: w)
  case Nil
  then show ?case by simp
next
  case (Cons d rest)
  obtain r w1 out where step: "navigate_search d w = (r, w1, out)"
    by (cases "navigate_search d w") auto
  have n: "0 < length (found w)" using Cons.prems(1) by simp
  from navigate_search_frame [OF step]
  have f1: "found w1 = found w"
    and c1: "cur_search_index w1 = snd (new_search_index d (cur_search_index w) (length (found w)))"
    by simp_all
  have r1: "0 \<le> cur_search_index w1" "cur_search_index w1 < int (length (found w))"
    using new_search_index_range(2,3) [OF n Cons.prems(2,3), of d] c1 by simp_all
  show ?case
  proof (cases r)
    case (Inl e)
    then have "w' = w1" using Cons.prems(4) step by simp
    then show ?thesis using f1 r1 by simp
  next
    case (Inr u)
    then have "navigate_all rest w1 = (res, w')" using Cons.prems(4) step by simp
    from Cons.IH [OF _ _ _ this] f1 r1 Cons.prems(1) show ?thesis by simp
  qed
qed

lemma navigate_search_ok:
  assumes "found w \<noteq> []" "0 \<le> cur_search_index w" "cur_search_index w < int (length (found w))"
    and "cur_evtx_view w = Some a" "search_msgbox w = Some b"
  shows "\<exists>w' out b'. navigate_search d w = (Inr (), w', out) \<and> cur_evtx_view w' = Some a
            \<and> search_msgbox w' = Some b'"
proof -
  have n: "0 < length (found w)" using assms(1) by simp
  let ?i = "snd (new_search_index d (cur_search_index w) (length (found w)))"
  have ok: "new_search_index d (cur_search_index w) (length (found w)) = (Inr (), ?i)"
    using new_search_index_range(1) [OF n assms(2,3), of d] by (simp add: prod_eq_iff)
  have r: "0 \<le> ?i" "?i < int (length (found w))"
    using new_search_index_range(2,3) [OF n assms(2,3), of d] by simp_all
  then obtain entry where e: "py_index (found w) ?i = Inr entry"
    by (simp add: py_index_def)
  show ?thesis using ok e assms(4,5)
    by (auto simp: navigate_search_def Let_def split: prod.splits)
qed

lemma navigate_all_ok:
  "found w \<noteq> [] \<Longrightarrow> 0 \<le> cur_search_index w \<Longrightarrow> cur_search_index w < int (length (found w)) \<Longrightarrow>
   cur_evtx_view w = Some a \<Longrightarrow> search_msgbox w = Some b \<Longrightarrow>
     fst (navigate_all dirs w) = Inr ()"
proof (induction dirs arbitrary: w b)
  case Nil
  then show ?case by simp
next
  case (Cons d rest)
  from navigate_search_ok [OF Cons.prems, of d] obtain w1 out b1 where
    step: "navigate_search d w = (Inr (), w1, out)" and
    keep: "cur_evtx_view w1 = Some a" "search_msgbox w1 = Some b1" by blast
  have n: "0 < length (found w)" using Cons.prems(1) by simp
  from navigate_search_frame [OF step]
  have f1: "found w1 = found w"
    and c1: "cur_search_index w1 = snd (new_search_index d (cur_search_index w) (length (found w)))"
    by simp_all
  have r1: "0 \<le> cur_search_index w1" "cur_search_index w1 < int (length (found w1))"
    using new_search_index_range(2,3) [OF n Cons.prems(2,3), of d] c1 f1 by simp_all
  have "fst (navigate_all rest w1) = Inr ()"
    by (rule Cons.IH [OF _ r1 keep]) (use f1 Cons.prems(1) in simp)
  then show ?case using step by simp
qed

text \<open>
  C9. Let the result list \<open>found\<close> be non-empty, of length \<open>n\<close>. After
  \<open>display_search_results\<close> and any run of clicks (Previous is direction \<open>-1\<close>,
  Next is direction \<open>1\<close>) the current position is within \<open>0..n-1\<close>, and when the
  view searched is set no click raises, so every read \<open>found[cur_search_index]\<close> is
  in range. The navigation is cyclic: Previous at position \<open>0\<close> leads to \<open>n-1\<close>, Next
  at position \<open>n-1\<close> leads to \<open>0\<close>.
\<close>

theorem navigation_stays_in_range:
  assumes "found w \<noteq> []"
  shows "(\<forall>dirs. 0 \<le> cur_search_index (snd (navigate_all dirs (display_search_results w)))
            \<and> cur_search_index (snd (navigate_all dirs (display_search_results w)))
                 < int (length (found w)))
       \<and> (\<forall>dirs. cur_evtx_view w \<noteq> None \<longrightarrow>
             fst (navigate_all dirs (display_search_results w)) = Inr ())
       \<and> cur_search_index (fst (snd (navigate_search (- 1) (w\<lparr> cur_search_index := 0 \<rparr>))))
            = int (length (found w)) - 1
       \<and> cur_search_index
            (fst (snd (navigate_search 1 (w\<lparr> cur_search_index := int (length (found w)) - 1 \<rparr>))))
            = 0"
proof (intro conjI allI impI)
  fix dirs
  let ?w0 = "display_search_results w"
  have f0: "found ?w0 = found w" and c0: "cur_search_index ?w0 = 0"
    by (simp_all add: display_search_results_def Let_def)
  obtain res w' where run: "navigate_all dirs ?w0 = (res, w')"
    by (cases "navigate_all dirs ?w0") auto
  have "found w' = found ?w0 \<and> 0 \<le> cur_search_index w' \<and> cur_search_index w' < int (length (found ?w0))"
    by (rule navigate_all_range [OF _ _ _ run]) (use assms f0 c0 in auto)
  then show "0 \<le> cur_search_index (snd (navigate_all dirs ?w0))"
    and "cur_search_index (snd (navigate_all dirs ?w0)) < int (length (found w))"
    using run f0 by simp_all
next
  fix dirs
  assume "cur_evtx_view w \<noteq> None"
  then obtain a where a: "cur_evtx_view w = Some a" by auto
  let ?w0 = "display_search_results w"
  have f0: "found ?w0 = found w" and c0: "cur_search_index ?w0 = 0"
    and a0: "cur_evtx_view ?w0 = Some a"
    and b0: "\<exists>b. search_msgbox ?w0 = Some b"
    using a by (simp_all add: display_search_results_def Let_def)
  from b0 obtain b where b: "search_msgbox ?w0 = Some b" ..
  show "fst (navigate_all dirs ?w0) = Inr ()"
    by (rule navigate_all_ok [OF _ _ _ a0 b]) (use assms f0 c0 in auto)
next
  let ?w = "w\<lparr> cur_search_index := 0 \<rparr>"
  obtain r w1 out where step: "navigate_search (- 1) ?w = (r, w1, out)"
    by (cases "navigate_search (- 1) ?w") auto
  from navigate_search_frame [OF step] show
    "cur_search_index (fst (snd (navigate_search (- 1) ?w))) = int (length (found w)) - 1"
    using step by (simp add: new_search_index_def)
next
  let ?w = "w\<lparr> cur_search_index := int (length (found w)) - 1 \<rparr>"
  obtain r w1 out where step: "navigate_search 1 ?w = (r, w1, out)"
    by (cases "navigate_search 1 ?w") auto
  from navigate_search_frame [OF step] show
    "cur_search_index (fst (snd (navigate_search 1 ?w))) = 0"
    using step assms by (simp add: new_search_index_def)
qed

theorem navigation_stays_in_range_witness:
  "found (MainWindow_init\<lparr> found := [(1, ''t1''), (2, ''t2''), (3, ''t3'')] \<rparr>) \<noteq> []
   \<and> cur_search_index (fst (snd (navigate_search (- 1)
        (MainWindow_init\<lparr> found := [(1, ''t1''), (2, ''t2''), (3, ''t3'')], cur_search_index := 0 \<rparr>))))
       = 2
   \<and> cur_search_index (fst (snd (navigate_search 1
        (MainWindow_init\<lparr> found := [(1, ''t1''), (2, ''t2''), (3, ''t3'')], cur_search_index := 2 \<rparr>))))
       = 0"
  using navigation_stays_in_range [of "MainWindow_init\<lparr> found := [(1, ''t1''), (2, ''t2''), (3, ''t3'')] \<rparr>"]
  by (simp add: MainWindow_init_def)

subsection \<open>Loading: the records and the sorted id sequence\<close>

lemma load_records_append:
  "load_records (rs @ rs') m = load_records rs' (load_records rs m)"
  by (induction rs arbitrary: m) auto

lemma load_records_ids:
  "vm_record_ids (load_records rs m) = vm_record_ids m @ map event_record_id rs"
  by (induction rs arbitrary: m) auto

lemma load_records_frame:
  "vm_filename (load_records rs m) = vm_filename m"
  "vm_highlighted_row (load_records rs m) = vm_highlighted_row m"
  by (induction rs arbitrary: m) auto

lemma load_records_other:
  "k \<notin> event_record_id ` set rs \<Longrightarrow> vm_records (load_records rs m) k = vm_records m k"
  by (induction rs arbitrary: m) auto

lemma load_records_last:
  "event_record_id b \<notin> event_record_id ` set post \<Longrightarrow>
     vm_records (load_records (pre @ b # post) m) (event_record_id b) = Some (EventRecord_init b)"
  by (simp add: load_records_append load_records_other)

lemma load_records_dom:
  "dom (vm_records (load_records rs m)) = dom (vm_records m) \<union> event_record_id ` set rs"
  by (induction rs arbitrary: m) auto

lemma load_records_values:
  "vm_records (load_records rs m) k = Some r \<Longrightarrow>
     vm_records m k = Some r \<or> (\<exists>x \<in> set rs. event_record_id x = k \<and> r = EventRecord_init x)"
proof (induction rs arbitrary: m)
  case Nil
  then show ?case by simp
next
  case (Cons x rest)
  from Cons.IH [OF Cons.prems [simplified]] show ?case
    by (auto split: if_splits)
qed

lemma load_records_distinct:
  "distinct (map event_record_id rs) \<Longrightarrow> x \<in> set rs \<Longrightarrow>
     vm_records (load_records rs m) (event_record_id x) = Some (EventRecord_init x)"
proof -
  assume d: "distinct (map event_record_id rs)" and x: "x \<in> set rs"
  from x obtain pre post where s: "rs = pre @ x # post" by (auto simp: in_set_conv_decomp)
  with d have "event_record_id x \<notin> event_record_id ` set post" by auto
  then show ?thesis unfolding s by (rule load_records_last)
qed

lemma records_of_Inr:
  "set ids \<subseteq> dom d \<Longrightarrow> records_of d ids = Inr (map (\<lambda>k. the (d k)) ids)"
  by (induction ids) (auto split: option.splits)

text \<open>The outcome of the constructor, spelt out.\<close>

lemma EvtxViewModel_init_Inr:
  assumes "PyEvtxParser filename = Inr rs"
  shows "EvtxViewModel_init PyEvtxParser filename =
           Inr \<lparr> vm_filename = filename,
                 vm_records = vm_records (load_records rs
                    \<lparr> vm_filename = filename, vm_records = Map.empty, vm_record_ids = [],
                      vm_highlighted_row = None \<rparr>),
                 vm_record_ids = sort (map event_record_id rs),
                 vm_highlighted_row = None \<rparr>"
  using assms
  by (simp add: EvtxViewModel_init_def load_data_def Let_def load_records_ids load_records_frame)

lemma get_records_init:
  assumes "PyEvtxParser filename = Inr rs"
    and "EvtxViewModel_init PyEvtxParser filename = Inr m"
  shows "get_records m = Inr (map (\<lambda>k. the (vm_records m k)) (sort (map event_record_id rs)))"
proof -
  let ?empty = "\<lparr> vm_filename = filename, vm_records = Map.empty, vm_record_ids = [],
                      vm_highlighted_row = None \<rparr>"
  from assms EvtxViewModel_init_Inr [of PyEvtxParser filename rs]
  have "m = \<lparr> vm_filename = filename, vm_records = vm_records (load_records rs ?empty),
                 vm_record_ids = sort (map event_record_id rs), vm_highlighted_row = None \<rparr>"
    by simp
  then have m: "vm_records m = vm_records (load_records rs ?empty)"
    "vm_record_ids m = sort (map event_record_id rs)"
    by simp_all
  have "set (vm_record_ids m) \<subseteq> dom (vm_records m)"
    by (simp add: m load_records_dom)
  from records_of_Inr [OF this] show ?thesis by (simp add: get_records_def m)
qed

lemma records_of_nth:
  "records_of d ids = Inr recs \<Longrightarrow>
     length recs = length ids \<and> (\<forall>i < length ids. d (ids ! i) = Some (recs ! i))"
proof (induction ids arbitrary: recs)
  case Nil
  then show ?case by simp
next
  case (Cons k ks)
  then show ?case
    by (auto split: option.splits sum.splits simp: nth_Cons split: nat.splits)
qed

lemma load_records_key:
  "vm_records (load_records rs m) k = Some r \<Longrightarrow>
     (\<forall>k r. vm_records m k = Some r \<longrightarrow> er_id r = k) \<Longrightarrow> er_id r = k"
  using load_records_values [of rs m k r] by (auto simp: EventRecord_init_def)

text \<open>
  C4. When the parser yields \<open>N\<close> records with pairwise distinct record ids, the
  constructor of the model succeeds and \<open>get_records\<close> returns \<open>N\<close> records:
  exactly the loaded ones (each input item as an \<open>EventRecord\<close>), their ids being
  the sorted input ids, strictly ascending.
\<close>

theorem enumeration_ascending:
  assumes "PyEvtxParser filename = Inr rs"
    and "distinct (map event_record_id rs)"
  shows "\<exists>m recs. EvtxViewModel_init PyEvtxParser filename = Inr m
           \<and> get_records m = Inr recs
           \<and> length recs = length rs
           \<and> set recs = EventRecord_init ` set rs
           \<and> map EventRecord_id recs = sort (map event_record_id rs)
           \<and> sorted_wrt (<) (map EventRecord_id recs)"
proof -
  let ?empty = "\<lparr> vm_filename = filename, vm_records = Map.empty, vm_record_ids = [],
                      vm_highlighted_row = None \<rparr>"
  let ?ids = "sort (map event_record_id rs)"
  let ?loaded = "\<lparr> vm_filename = filename, vm_records = vm_records (load_records rs ?empty),
                 vm_record_ids = sort (map event_record_id rs), vm_highlighted_row = None \<rparr>"
  have init0: "EvtxViewModel_init PyEvtxParser filename = Inr ?loaded"
    using EvtxViewModel_init_Inr [of PyEvtxParser filename rs] assms(1) by simp
  obtain m where init: "EvtxViewModel_init PyEvtxParser filename = Inr m" and mm: "m = ?loaded"
    using init0 by simp
  have recs: "vm_records m = vm_records (load_records rs ?empty)"
    by (simp add: mm)
  let ?recs = "map (\<lambda>k. the (vm_records m k)) ?ids"
  have g: "get_records m = Inr ?recs"
    using get_records_init [of PyEvtxParser filename rs m] assms(1) init by simp
  have at: "the (vm_records m (event_record_id x)) = EventRecord_init x" if "x \<in> set rs" for x
    using load_records_distinct [OF assms(2) that, of ?empty] by (simp add: recs)
  have s: "set ?recs = EventRecord_init ` set rs"
  proof -
    have "set ?recs = (\<lambda>k. the (vm_records m k)) ` event_record_id ` set rs" by simp
    also have "\<dots> = EventRecord_init ` set rs" using at by (auto simp: image_iff)
    finally show ?thesis .
  qed
  have ids: "map EventRecord_id ?recs = ?ids"
  proof -
    have "EventRecord_id (the (vm_records m k)) = k" if "k \<in> set ?ids" for k
    proof -
      from that obtain x where "x \<in> set rs" "k = event_record_id x" by auto
      then show ?thesis using at [of x] by (simp add: EventRecord_id_def EventRecord_init_def)
    qed
    then have "map (\<lambda>k. EventRecord_id (the (vm_records m k))) ?ids = ?ids"
      by (intro map_idI) simp
    then show ?thesis by (simp add: comp_def)
  qed
  have "distinct ?ids" using assms(2) by simp
  then have st: "sorted_wrt (<) ?ids" by (simp add: strict_sorted_iff)
  show ?thesis using init g s ids st by (intro exI [of _ m] exI [of _ ?recs]) simp
qed

theorem enumeration_ascending_witness:
  "distinct (map event_record_id
      [\<lparr> event_record_id = 3, timestamp = ''t3'', data = ''c'' \<rparr>,
       \<lparr> event_record_id = 1, timestamp = ''t1'', data = ''a'' \<rparr>])
   \<and> (\<exists>m recs.
         EvtxViewModel_init
           (\<lambda>f. Inr [\<lparr> event_record_id = 3, timestamp = ''t3'', data = ''c'' \<rparr>,
                      \<lparr> event_record_id = 1, timestamp = ''t1'', data = ''a'' \<rparr>]) ''a.evtx'' = Inr m
         \<and> get_records m = Inr recs
         \<and> length recs = 2
         \<and> map EventRecord_id recs = [1, 3])"
  using enumeration_ascending
    [of "\<lambda>f. Inr [\<lparr> event_record_id = 3, timestamp = ''t3'', data = ''c'' \<rparr>,
                    \<lparr> event_record_id = 1, timestamp = ''t1'', data = ''a'' \<rparr>]" "''a.evtx''"
        "[\<lparr> event_record_id = 3, timestamp = ''t3'', data = ''c'' \<rparr>,
          \<lparr> event_record_id = 1, timestamp = ''t1'', data = ''a'' \<rparr>]"]
  by auto

subsection \<open>Duplicate record ids\<close>

text \<open>
  C5, as the code has it. When the parser yields two records with one id, the
  dictionary holds the later one under that id (the later record wins). The id
  sequence keeps the id once for each occurrence, so the enumeration has as many
  entries as the input, each entry with that id being the later record. The load
  records no diagnostic: the model has no place for one (see the counterexample).
\<close>

theorem later_duplicate_wins:
  assumes "PyEvtxParser filename = Inr (pre @ a # mid @ b # post)"
    and "event_record_id a = event_record_id b"
    and "event_record_id b \<notin> event_record_id ` set post"
  shows "\<exists>m recs. EvtxViewModel_init PyEvtxParser filename = Inr m
           \<and> vm_records m (event_record_id b) = Some (EventRecord_init b)
           \<and> get_records m = Inr recs
           \<and> length recs = length (pre @ a # mid @ b # post)
           \<and> (\<forall>r \<in> set recs. EventRecord_id r = event_record_id b \<longrightarrow> r = EventRecord_init b)
           \<and> length (filter (\<lambda>r. EventRecord_id r = event_record_id b) recs)
               = length (filter (\<lambda>x. event_record_id x = event_record_id b)
                                (pre @ a # mid @ b # post))"
proof -
  let ?rs = "pre @ a # mid @ b # post"
  let ?k = "event_record_id b"
  let ?empty = "\<lparr> vm_filename = filename, vm_records = Map.empty, vm_record_ids = [],
                      vm_highlighted_row = None \<rparr>"
  let ?ids = "sort (map event_record_id ?rs)"
  let ?loaded = "\<lparr> vm_filename = filename, vm_records = vm_records (load_records ?rs ?empty),
                 vm_record_ids = ?ids, vm_highlighted_row = None \<rparr>"
  have init: "EvtxViewModel_init PyEvtxParser filename = Inr ?loaded"
    using EvtxViewModel_init_Inr [of PyEvtxParser filename ?rs] assms(1) by simp
  have "vm_records (load_records ((pre @ a # mid) @ b # post) ?empty) ?k = Some (EventRecord_init b)"
    by (rule load_records_last [OF assms(3)])
  then have win: "vm_records ?loaded ?k = Some (EventRecord_init b)" by simp
  let ?recs = "map (\<lambda>k. the (vm_records ?loaded k)) ?ids"
  have g: "get_records ?loaded = Inr ?recs"
    using get_records_init [of PyEvtxParser filename ?rs ?loaded] assms(1) init by simp
  have key: "EventRecord_id (the (vm_records ?loaded k)) = k" if "k \<in> set ?ids" for k
  proof -
    from that have "k \<in> dom (vm_records (load_records ?rs ?empty))"
      by (simp only: load_records_dom) auto
    then obtain r where r: "vm_records (load_records ?rs ?empty) k = Some r" by auto
    from load_records_key [OF r] show ?thesis using r by (simp add: EventRecord_id_def)
  qed
  have same: "\<forall>r \<in> set ?recs. EventRecord_id r = ?k \<longrightarrow> r = EventRecord_init b"
  proof (intro ballI impI)
    fix r assume "r \<in> set ?recs" and rk: "EventRecord_id r = ?k"
    then obtain k where k: "k \<in> set ?ids" and r: "r = the (vm_records ?loaded k)" by auto
    from key [OF k] r rk have "k = ?k" by simp
    then show "r = EventRecord_init b" using r win by simp
  qed
  have "filter (\<lambda>r. EventRecord_id r = ?k) ?recs
          = map (\<lambda>k. the (vm_records ?loaded k)) (filter (\<lambda>k. k = ?k) ?ids)"
    using key by (simp only: filter_map comp_def) (rule arg_cong [where f = "map _"], rule filter_cong, auto)
  then have "length (filter (\<lambda>r. EventRecord_id r = ?k) ?recs) = length (filter (\<lambda>k. k = ?k) ?ids)"
    by simp
  also have "\<dots> = length (filter (\<lambda>k. k = ?k) (map event_record_id ?rs))"
    by (simp only: filter_sort length_sort)
  also have "\<dots> = length (filter (\<lambda>x. event_record_id x = ?k) ?rs)"
    by (simp only: filter_map comp_def length_map)
  finally have cnt: "length (filter (\<lambda>r. EventRecord_id r = ?k) ?recs)
                       = length (filter (\<lambda>x. event_record_id x = ?k) ?rs)" .
  have len: "length ?recs = length ?rs" by simp
  show ?thesis
    using init win g len same cnt by (intro exI [of _ ?loaded] exI [of _ ?recs] conjI)
qed

theorem later_duplicate_wins_witness:
  "event_record_id \<lparr> event_record_id = 7, timestamp = ''t1'', data = ''A'' \<rparr>
     = event_record_id \<lparr> event_record_id = 7, timestamp = ''t2'', data = ''B'' \<rparr>
   \<and> (\<exists>m recs.
         EvtxViewModel_init
           (\<lambda>f. Inr [\<lparr> event_record_id = 7, timestamp = ''t1'', data = ''A'' \<rparr>,
                      \<lparr> event_record_id = 7, timestamp = ''t2'', data = ''B'' \<rparr>]) ''dup.evtx'' = Inr m
         \<and> vm_records m 7 = Some (EventRecord_init \<lparr> event_record_id = 7, timestamp = ''t2'', data = ''B'' \<rparr>)
         \<and> get_records m = Inr recs
         \<and> length recs = 2)"
  using later_duplicate_wins
    [of "\<lambda>f. Inr [\<lparr> event_record_id = 7, timestamp = ''t1'', data = ''A'' \<rparr>,
                    \<lparr> event_record_id = 7, timestamp = ''t2'', data = ''B'' \<rparr>]" "''dup.evtx''"
        "[]" "\<lparr> event_record_id = 7, timestamp = ''t1'', data = ''A'' \<rparr>" "[]"
        "\<lparr> event_record_id = 7, timestamp = ''t2'', data = ''B'' \<rparr>" "[]"]
  by auto

text \<open>
  C5 as stated fails. The whole outcome of loading two records with the id 7: the file name, the
  dictionary with the later record, the id sequence with 7 twice, no highlighted
  row. Nothing else is produced, raised or printed by the load, so no
  \<open>DuplicateRecordId\<close> diagnostic is recorded.
\<close>

theorem no_duplicate_diagnostic_counterexample:
  "EvtxViewModel_init
     (\<lambda>f. Inr [\<lparr> event_record_id = 7, timestamp = ''t1'', data = ''A'' \<rparr>,
                \<lparr> event_record_id = 7, timestamp = ''t2'', data = ''B'' \<rparr>]) ''dup.evtx''
   = Inr \<lparr> vm_filename = ''dup.evtx'',
           vm_records = [7 \<mapsto> EventRecord_init \<lparr> event_record_id = 7, timestamp = ''t2'', data = ''B'' \<rparr>],
           vm_record_ids = [7, 7],
           vm_highlighted_row = None \<rparr>"
  by (simp add: EvtxViewModel_init_def load_data_def)

subsection \<open>Looking a record id up\<close>





subsection \<open>EventRecord: what an access does to the record\<close>

text \<open>
  \<open>__parse_data\<close> never sets \<open>__parsed\<close>, and changes neither id nor timestamp.
\<close>

lemma parse_data_parsed: "er_parsed (snd (parse_data XML r)) = er_parsed r"
  by (simp add: parse_data_def Let_def split: sum.splits option.splits)

lemma parse_data_frame:
  "er_id (snd (parse_data XML r)) = er_id r"
  "er_timestamp (snd (parse_data XML r)) = er_timestamp r"
  by (simp_all add: parse_data_def Let_def split: sum.splits option.splits)

lemma parse_data_data:
  "er_data (snd (parse_data XML r)) =
     (if er_parsed r then er_data r
      else let idx = py_find (er_data r) ''?>'' in
           if idx \<noteq> - 1 then slice_from (er_data r) (idx + 2) else er_data r)"
  by (simp add: parse_data_def Let_def split: sum.splits option.splits)

lemma parsed_attrib_snd: "snd (parsed_attrib XML key r) = snd (parse_data XML r)"
  by (simp add: parsed_attrib_def split: prod.splits sum.splits option.splits)

lemma Level_snd: "snd (Level XML r) = snd (parse_data XML r)"
  using parsed_attrib_snd [of XML "''Level''" r]
  by (auto simp: Level_def split: prod.splits sum.splits option.splits)

lemma py_find_ge: "- 1 \<le> py_find s sub"
  by (induction s) (auto simp: Let_def)

lemma py_find_none: "py_find s sub = - 1 \<longleftrightarrow> \<not> py_in sub s"
proof (induction s)
  case Nil
  show ?case by simp
next
  case (Cons x xs)
  then show ?case using py_find_ge [of xs sub] by (auto simp: Let_def)
qed

lemma py_find_split:
  "py_find s sub \<noteq> - 1 \<Longrightarrow>
     \<exists>pre. s = pre @ sub @ drop (nat (py_find s sub) + length sub) s
          \<and> int (length pre) = py_find s sub
          \<and> (\<forall>j < length pre. \<not> prefix sub (drop j s))"
proof (induction s)
  case Nil
  then show ?case by (simp split: if_splits)
next
  case (Cons x xs)
  show ?case
  proof (cases "prefix sub (x # xs)")
    case True
    then obtain rest where "x # xs = sub @ rest" by (auto simp: prefix_def)
    then have "x # xs = [] @ sub @ drop (0 + length sub) (x # xs)" by simp
    then show ?thesis using True by (intro exI [of _ "[]"]) simp
  next
    case False
    let ?i = "py_find xs sub"
    from False Cons.prems have ne: "?i \<noteq> - 1" by (auto simp: Let_def split: if_splits)
    have ge: "0 \<le> ?i" using py_find_ge [of xs sub] ne by simp
    from Cons.IH [OF ne] obtain pre where
      pre: "xs = pre @ sub @ drop (nat ?i + length sub) xs" "int (length pre) = ?i"
        "\<forall>j < length pre. \<not> prefix sub (drop j xs)" by blast
    have val: "py_find (x # xs) sub = ?i + 1" using False ne by (simp add: Let_def)
    have n: "nat (?i + 1) = Suc (nat ?i)" using ge by simp
    have dr: "drop (nat (py_find (x # xs) sub) + length sub) (x # xs)
                = drop (nat ?i + length sub) xs"
      by (simp only: val n) simp
    have a: "x # xs = (x # pre) @ sub @ drop (nat (py_find (x # xs) sub) + length sub) (x # xs)"
      unfolding dr append_Cons using pre(1) by (rule arg_cong [where f = "Cons x"])
    have b: "int (length (x # pre)) = py_find (x # xs) sub" using pre(2) val by simp
    have c: "\<forall>j < length (x # pre). \<not> prefix sub (drop j (x # xs))"
    proof (intro allI impI)
      fix j assume "j < length (x # pre)"
      then show "\<not> prefix sub (drop j (x # xs))"
        using False pre(3) by (cases j) auto
    qed
    from a b c show ?thesis by blast
  qed
qed

lemmas eval_defs =
  Level_def EventID_def Provider_def parsed_attrib_def parse_data_def EventRecord_init_def
  EventRecord_data_def event_text_def event_tree_def parser_of_def slice_from_def child_key_def
  system_child_def getitem_def xe_text_def xe_attrib_def py_int_def py_strip_def is_space_def
  py_unsigned_def is_digit_def digit_val_def int_max_str_digits_def levels_def Let_def

lemma behind_first_find:
  "behind_first sub s =
     (if py_find s sub = - 1 then None else Some (drop (nat (py_find s sub) + length sub) s))"
proof (induction s)
  case Nil
  show ?case by simp
next
  case (Cons x xs)
  show ?case
  proof (cases "prefix sub (x # xs)")
    case True
    then show ?thesis by simp
  next
    case False
    have ge: "- 1 \<le> py_find xs sub" by (rule py_find_ge)
    show ?thesis
    proof (cases "py_find xs sub = - 1")
      case True
      with False Cons.IH show ?thesis by (simp add: Let_def)
    next
      case ne: False
      then have "nat (py_find xs sub + 1) = Suc (nat (py_find xs sub))" using ge by simp
      with False ne Cons.IH show ?thesis by (simp add: Let_def)
    qed
  qed
qed

lemma cut_without_prolog:
  "(let idx = py_find s ''?>'' in if idx \<noteq> - 1 then slice_from s (idx + 2) else s)
     = without_prolog s"
proof -
  have ge: "- 1 \<le> py_find s ''?>''" by (rule py_find_ge)
  have "py_find s ''?>'' \<noteq> - 1 \<Longrightarrow>
          slice_from s (py_find s ''?>'' + 2) = drop (nat (py_find s ''?>'') + 2) s"
    using ge by (simp add: slice_from_def nat_add_distrib)
  then show ?thesis
    by (simp add: without_prolog_def behind_first_find Let_def)
qed

lemma without_prolog_none: "\<not> py_in ''?>'' s \<Longrightarrow> without_prolog s = s"
  by (simp add: without_prolog_def behind_first_find py_find_none)

lemma parse_data_without_prolog:
  "er_data (snd (parse_data XML r)) = (if er_parsed r then er_data r else without_prolog (er_data r))"
  using cut_without_prolog [of "er_data r"] by (simp add: parse_data_data Let_def)

text \<open>An access keeps a text without prolog mark, in any state of the record.\<close>

lemma access_keeps_plain_text:
  assumes "touch \<in> {snd \<circ> EventID XML, snd \<circ> Provider XML, snd \<circ> Level XML}"
    and "\<not> py_in ''?>'' (er_data r)"
  shows "er_data (touch r) = er_data r"
proof -
  have "touch r = snd (parse_data XML r)"
    using assms(1) by (auto simp: EventID_def Provider_def parsed_attrib_snd Level_snd)
  then show ?thesis using assms(2) by (simp add: parse_data_without_prolog without_prolog_none)
qed

lemma accesses_keep_plain_text:
  assumes "set ts \<subseteq> {snd \<circ> EventID XML, snd \<circ> Provider XML, snd \<circ> Level XML}"
    and "\<not> py_in ''?>'' (er_data r)"
  shows "er_data (fold (\<lambda>t r. t r) ts r) = er_data r"
  using assms
proof (induction ts arbitrary: r)
  case Nil
  then show ?case by simp
next
  case (Cons t ts)
  have t: "t \<in> {snd \<circ> EventID XML, snd \<circ> Provider XML, snd \<circ> Level XML}"
    using Cons.prems(1) by (rule subsetD) simp
  have k: "er_data (t r) = er_data r" by (rule access_keeps_plain_text [OF t Cons.prems(2)])
  have "er_data (fold (\<lambda>t r. t r) ts (t r)) = er_data (t r)"
  proof (rule Cons.IH)
    show "set ts \<subseteq> {snd \<circ> EventID XML, snd \<circ> Provider XML, snd \<circ> Level XML}"
      using Cons.prems(1) by (meson set_subset_Cons subset_trans)
    show "\<not> py_in ''?>'' (er_data (t r))" using Cons.prems(2) k by simp
  qed
  then show ?case using k by simp
qed

text \<open>
  C2, as the code has it. The first access of a convenience field of a record
  (\<open>EventID\<close>, \<open>Provider\<close> or \<open>Level\<close>, whether it returns or raises) removes
  the prolog from the text the \<open>data\<close> accessor returns: when the text held at
  construction contains \<open>?>\<close>, it is some \<open>pre\<close>, then its first \<open>?>\<close> (none
  starts inside \<open>pre\<close>), then the text returned right after that access. A text
  without \<open>?>\<close> is left as it is by every access: a record constructed without
  \<open>?>\<close> returns the text held at construction after any sequence of accesses,
  and when the text returned after the first access holds no \<open>?>\<close>, it is
  returned after every sequence of later accesses too.
\<close>

theorem first_access_removes_prolog:
  assumes "touch \<in> {snd \<circ> EventID XML, snd \<circ> Provider XML, snd \<circ> Level XML}"
    and "set later \<subseteq> {snd \<circ> EventID XML, snd \<circ> Provider XML, snd \<circ> Level XML}"
  shows "(\<not> py_in ''?>'' (data raw) \<longrightarrow>
            EventRecord_data (fold (\<lambda>t r. t r) (touch # later) (EventRecord_init raw)) = data raw)
       \<and> (py_in ''?>'' (data raw) \<longrightarrow>
            (\<exists>pre. data raw = pre @ ''?>'' @ EventRecord_data (touch (EventRecord_init raw))
                  \<and> (\<forall>j < length pre. \<not> prefix ''?>'' (drop j (data raw)))))
       \<and> (\<not> py_in ''?>'' (EventRecord_data (touch (EventRecord_init raw))) \<longrightarrow>
            EventRecord_data (fold (\<lambda>t r. t r) later (touch (EventRecord_init raw)))
              = EventRecord_data (touch (EventRecord_init raw)))"
proof (intro conjI impI)
  let ?r = "EventRecord_init raw"
  have fresh: "er_data ?r = data raw" by (simp add: EventRecord_init_def)
  {
    assume no: "\<not> py_in ''?>'' (data raw)"
    have "set (touch # later) \<subseteq> {snd \<circ> EventID XML, snd \<circ> Provider XML, snd \<circ> Level XML}"
      using assms by (simp del: o_apply comp_apply add: insert_subset)
    from accesses_keep_plain_text [OF this, of ?r] no fresh
    show "EventRecord_data (fold (\<lambda>t r. t r) (touch # later) ?r) = data raw"
      by (simp add: EventRecord_data_def)
  }
  {
    assume no: "\<not> py_in ''?>'' (EventRecord_data (touch ?r))"
    then have "\<not> py_in ''?>'' (er_data (touch ?r))" by (simp add: EventRecord_data_def)
    from accesses_keep_plain_text [OF assms(2) this]
    show "EventRecord_data (fold (\<lambda>t r. t r) later (touch ?r)) = EventRecord_data (touch ?r)"
      by (simp add: EventRecord_data_def)
  }
  {
    assume yes: "py_in ''?>'' (data raw)"
    have t: "touch ?r = snd (parse_data XML ?r)"
      using assms(1) by (auto simp: EventID_def Provider_def parsed_attrib_snd Level_snd)
    have nf: "\<not> er_parsed ?r" by (simp add: EventRecord_init_def)
    let ?idx = "py_find (data raw) ''?>''"
    have d: "EventRecord_data (touch ?r) =
             (if ?idx \<noteq> - 1 then slice_from (data raw) (?idx + 2) else data raw)"
      by (simp add: t EventRecord_data_def parse_data_data fresh nf Let_def)
    from yes have ne: "?idx \<noteq> - 1" by (simp add: py_find_none)
    then have ge: "0 \<le> ?idx" using py_find_ge [of "data raw" "''?>''"] by simp
    have sl: "slice_from (data raw) (?idx + 2) = drop (nat ?idx + length ''?>'') (data raw)"
      using ge by (simp add: slice_from_def nat_add_distrib)
    from py_find_split [OF ne] obtain pre where
      "data raw = pre @ ''?>'' @ drop (nat ?idx + length ''?>'') (data raw)"
      "\<forall>j < length pre. \<not> prefix ''?>'' (drop j (data raw))" by blast
    then show "\<exists>pre. data raw = pre @ ''?>'' @ EventRecord_data (touch ?r)
                  \<and> (\<forall>j < length pre. \<not> prefix ''?>'' (drop j (data raw)))"
      using d ne sl by auto
  }
qed

theorem first_access_removes_prolog_witness:
  "py_in ''?>'' (data \<lparr> event_record_id = 1, timestamp = ''t'', data = ''<?xml?><Event/>'' \<rparr>)
   \<and> (\<exists>pre. data \<lparr> event_record_id = 1, timestamp = ''t'', data = ''<?xml?><Event/>'' \<rparr>
               = pre @ ''?>'' @ ''<Event/>'')
   \<and> EventRecord_data ((snd \<circ> Level (\<lambda>s. Inl XMLSyntaxError))
         (EventRecord_init \<lparr> event_record_id = 1, timestamp = ''t'', data = ''<?xml?><Event/>'' \<rparr>))
       = ''<Event/>''
   \<and> EventRecord_data
        (fold (\<lambda>t r. t r)
           [snd \<circ> EventID (\<lambda>s. Inl XMLSyntaxError), snd \<circ> Provider (\<lambda>s. Inl XMLSyntaxError)]
           ((snd \<circ> Level (\<lambda>s. Inl XMLSyntaxError))
              (EventRecord_init
                 \<lparr> event_record_id = 1, timestamp = ''t'', data = ''<?xml?><Event/>'' \<rparr>)))
       = ''<Event/>''"
proof -
  let ?raw = "\<lparr> event_record_id = 1, timestamp = ''t'', data = ''<?xml?><Event/>'' \<rparr>"
  let ?XML = "\<lambda>s::string. (Inl XMLSyntaxError :: py_error + etree)"
  let ?touch = "snd \<circ> Level ?XML"
  let ?later = "[snd \<circ> EventID ?XML, snd \<circ> Provider ?XML]"
  have d: "EventRecord_data (?touch (EventRecord_init ?raw)) = ''<Event/>''"
    by (simp add: eval_defs)
  have p: "py_in ''?>'' (data ?raw)" by simp
  have q: "\<not> py_in ''?>'' (EventRecord_data (?touch (EventRecord_init ?raw)))"
    by (simp only: d) simp
  have a1: "?touch \<in> {snd \<circ> EventID ?XML, snd \<circ> Provider ?XML, snd \<circ> Level ?XML}"
    by (simp del: o_apply comp_apply)
  have a2: "set ?later \<subseteq> {snd \<circ> EventID ?XML, snd \<circ> Provider ?XML, snd \<circ> Level ?XML}"
    by (simp del: o_apply comp_apply)
  note th = first_access_removes_prolog [OF a1 a2, of ?raw]
  from th p have "\<exists>pre. data ?raw = pre @ ''?>'' @ EventRecord_data (?touch (EventRecord_init ?raw))"
    by blast
  moreover from th q have "EventRecord_data (fold (\<lambda>t r. t r) ?later (?touch (EventRecord_init ?raw)))
      = EventRecord_data (?touch (EventRecord_init ?raw))" by blast
  ultimately show ?thesis using p d by simp
qed

text \<open>
  C2 as stated fails: a record constructed with a prolog before the event
  returns the event id \<open>4624\<close> at the first access, and the \<open>data\<close> accessor then
  returns the text without the prolog, not the text held at construction.
\<close>

theorem data_changed_counterexample:
  "EventRecord_data (EventRecord_init
      \<lparr> event_record_id = 1, timestamp = ''t'',
        data = ''<?xml version='1.0'?>'' @ event_text ''svc'' ''4624'' ''4'' \<rparr>)
     = ''<?xml version='1.0'?>'' @ event_text ''svc'' ''4624'' ''4''
   \<and> fst (EventID (parser_of (event_text ''svc'' ''4624'' ''4'') (event_tree ''svc'' ''4624'' ''4''))
        (EventRecord_init
          \<lparr> event_record_id = 1, timestamp = ''t'',
            data = ''<?xml version='1.0'?>'' @ event_text ''svc'' ''4624'' ''4'' \<rparr>))
     = Inr (Some ''4624'')
   \<and> EventRecord_data
        (snd (EventID (parser_of (event_text ''svc'' ''4624'' ''4'') (event_tree ''svc'' ''4624'' ''4''))
          (EventRecord_init
            \<lparr> event_record_id = 1, timestamp = ''t'',
              data = ''<?xml version='1.0'?>'' @ event_text ''svc'' ''4624'' ''4'' \<rparr>)))
     = event_text ''svc'' ''4624'' ''4''"
  by (simp add: eval_defs)

text \<open>
  C1, on the code. The record below has a prolog and a provider name holding
  \<open>?>\<close>. The first access of \<open>Provider\<close> parses the text behind the prolog and
  returns the name; it leaves \<open>__parsed\<close> false (as every access does, by
  \<open>parse_data_parsed\<close>). So the second access does not return the value cached in
  \<open>__attrib\<close>: it runs the parse again, now on the text behind the \<open>?>\<close> of the
  name, and raises.
\<close>

theorem parse_repeated_at_each_access:
  "Provider (parser_of (event_text ''a?>b'' ''1'' ''4'') (event_tree ''a?>b'' ''1'' ''4''))
     (EventRecord_init
        \<lparr> event_record_id = 1, timestamp = ''t'',
          data = ''<?xml version='1.0'?>'' @ event_text ''a?>b'' ''1'' ''4'' \<rparr>)
     = (Inr (Some ''a?>b''),
        \<lparr> er_id = 1, er_timestamp = ''t'', er_data = event_text ''a?>b'' ''1'' ''4'',
          er_parsed = False,
          er_attrib = [''EventID'' \<mapsto> Some ''1'', ''Level'' \<mapsto> Some ''4'',
                       ''Provider'' \<mapsto> Some ''a?>b''] \<rparr>)
   \<and> fst (Provider (parser_of (event_text ''a?>b'' ''1'' ''4'') (event_tree ''a?>b'' ''1'' ''4''))
        \<lparr> er_id = 1, er_timestamp = ''t'', er_data = event_text ''a?>b'' ''1'' ''4'',
          er_parsed = False,
          er_attrib = [''EventID'' \<mapsto> Some ''1'', ''Level'' \<mapsto> Some ''4'',
                       ''Provider'' \<mapsto> Some ''a?>b''] \<rparr>)
     = Inl XMLSyntaxError"
  by (simp add: eval_defs)

subsection \<open>EventRecord: the level names\<close>

text \<open>The model of \<open>int\<close> on the surroundings that are and are not whitespace, and at the digit limit.\<close>

lemma py_int_whitespace:
  "py_int (Some (CHR 0xA0 # ''4'')) = Inr 4"
  "py_int (Some (''4'' @ [CHR 0x85])) = Inr 4"
  "py_int (Some (CHR 0x1C # ''4'')) = Inl ValueError"
  "py_int (Some (''4'' @ [CHR 0x1F])) = Inl ValueError"
  by (simp_all add: py_int_def py_strip_def is_space_def py_unsigned_def is_digit_def
        digit_val_def int_max_str_digits_def)

lemma py_unsigned_digit_limit:
  "int_max_str_digits < length (filter is_digit s) \<Longrightarrow> py_unsigned s = None"
  by (cases s) (auto simp: py_unsigned_def)

lemma py_int_digit_limit:
  "py_int (Some (replicate 4300 (CHR ''0'') @ ''4'')) = Inl ValueError"
proof -
  let ?s = "replicate 4300 (CHR ''0'') @ ''4''"
  have z: "is_digit (CHR ''0'')" "\<not> is_space (CHR ''0'')" "\<not> is_space (CHR ''4'')" "is_digit (CHR ''4'')"
    by (simp_all add: is_digit_def is_space_def)
  have r: "replicate 4300 (CHR ''0'') = CHR ''0'' # replicate 4299 (CHR ''0'')"
    by (simp add: replicate_Suc [symmetric] del: replicate_Suc)
  have s1: "dropWhile is_space ?s = ?s" using z by (simp add: r)
  have s2: "dropWhile is_space (rev ?s) = rev ?s" using z by simp
  have strip: "py_strip ?s = ?s" by (simp only: py_strip_def s1 s2 rev_rev_ident)
  have "length (filter is_digit ?s) = 4301" using z by simp
  then have u: "py_unsigned ?s = None"
    by (intro py_unsigned_digit_limit) (simp add: int_max_str_digits_def)
  have c: "?s = CHR ''0'' # (replicate 4299 (CHR ''0'') @ ''4'')" by (simp only: r append_Cons)
  have "py_int (Some ?s) =
          (case py_unsigned ?s of None \<Rightarrow> Inl ValueError | Some n \<Rightarrow> Inr n)"
    unfolding py_int_def option.case strip by (subst (1 2) c) simp
  then show ?thesis by (simp only: u option.case)
qed

text \<open>
  C3, as the code has it. When the parse succeeds and \<open>int\<close> returns the number
  \<open>n\<close> for the level text, the accessor returns the name of \<open>n\<close> for \<open>n\<close> from 0
  to 5 and raises \<open>KeyError\<close> for every other \<open>n\<close>.
\<close>

theorem level_names:
  assumes "parsed_attrib XML ''Level'' r = (Inr v, r')" and "py_int v = Inr n"
  shows "(n = 0 \<longrightarrow> Level XML r = (Inr ''LogAlways'', r'))
       \<and> (n = 1 \<longrightarrow> Level XML r = (Inr ''Critical'', r'))
       \<and> (n = 2 \<longrightarrow> Level XML r = (Inr ''Error'', r'))
       \<and> (n = 3 \<longrightarrow> Level XML r = (Inr ''Warning'', r'))
       \<and> (n = 4 \<longrightarrow> Level XML r = (Inr ''Informational'', r'))
       \<and> (n = 5 \<longrightarrow> Level XML r = (Inr ''Verbose'', r'))
       \<and> (n < 0 \<or> 5 < n \<longrightarrow> Level XML r = (Inl KeyError, r'))"
  using assms by (auto simp: Level_def levels_def)

theorem level_names_witness:
  "fst (parsed_attrib (parser_of (event_text ''svc'' ''4624'' ''4'') (event_tree ''svc'' ''4624'' ''4''))
         ''Level''
         (EventRecord_init \<lparr> event_record_id = 1, timestamp = ''t'',
                             data = event_text ''svc'' ''4624'' ''4'' \<rparr>))
     = Inr (Some ''4'')
   \<and> py_int (Some ''4'') = Inr 4
   \<and> fst (Level (parser_of (event_text ''svc'' ''4624'' ''4'') (event_tree ''svc'' ''4624'' ''4''))
         (EventRecord_init \<lparr> event_record_id = 1, timestamp = ''t'',
                             data = event_text ''svc'' ''4624'' ''4'' \<rparr>))
     = Inr ''Informational''"
proof -
  let ?XML = "parser_of (event_text ''svc'' ''4624'' ''4'') (event_tree ''svc'' ''4624'' ''4'')"
  let ?r = "EventRecord_init \<lparr> event_record_id = 1, timestamp = ''t'',
                             data = event_text ''svc'' ''4624'' ''4'' \<rparr>"
  have a: "fst (parsed_attrib ?XML ''Level'' ?r) = Inr (Some ''4'')"
    by (simp add: eval_defs)
  then have h1: "parsed_attrib ?XML ''Level'' ?r = (Inr (Some ''4''), snd (parsed_attrib ?XML ''Level'' ?r))"
    by (simp add: prod_eq_iff)
  have h2: "py_int (Some ''4'') = Inr 4" by (simp add: eval_defs)
  from level_names [OF h1 h2] show ?thesis using a h2 by simp
qed

text \<open>
  C3 as stated fails: the level text \<open>6\<close> is numeric, and the accessor
  raises \<open>KeyError\<close> instead of returning the string \<open>6\<close>.
\<close>

theorem level_out_of_range_counterexample:
  "py_int (Some ''6'') = Inr 6
   \<and> fst (Level (parser_of (event_text ''svc'' ''1'' ''6'') (event_tree ''svc'' ''1'' ''6''))
         (EventRecord_init \<lparr> event_record_id = 1, timestamp = ''t'',
                             data = event_text ''svc'' ''1'' ''6'' \<rparr>))
     = Inl KeyError"
  by (simp add: eval_defs)

subsection \<open>Search: the matching records in ascending order\<close>

text \<open>The constructor succeeds on a tree of elements, and a lookup finds the last child of the name.\<close>

lemma init_children_total:
  "(\<forall>c \<in> set cs. etree_tag c \<noteq> None \<and> (\<exists>x. XmlElement_init c = Inr x)) \<Longrightarrow>
     \<exists>d'. init_children cs d = Inr d'"
  by (induction cs arbitrary: d) (auto split: option.splits sum.splits)

lemma XmlElement_total: "elements_below n \<Longrightarrow> \<exists>xe. XmlElement_init n = Inr xe"
proof (induction n)
  case (Element t a x cs)
  have "\<forall>c \<in> set cs. etree_tag c \<noteq> None \<and> (\<exists>x. XmlElement_init c = Inr x)"
    using Element by auto
  from init_children_total [OF this, of "[]"] show ?case by auto
next
  case NonElement
  show ?case by simp
qed

lemma init_children_each:
  "init_children cs d = Inr d' \<Longrightarrow> c \<in> set cs \<Longrightarrow> \<exists>x. XmlElement_init c = Inr x"
  by (induction cs arbitrary: d) (auto split: option.splits sum.splits)

lemma XmlElement_node: "XmlElement_init n = Inr xe \<Longrightarrow> xe_node xe = n"
  by (cases n) (auto split: sum.splits)

lemma init_children_map_of:
  "init_children cs d = Inr d' \<Longrightarrow>
     map_of d' k =
       (case filter (\<lambda>c. local_name c = Some k) cs of
          [] \<Rightarrow> map_of d k
        | c # fs \<Rightarrow> (case XmlElement_init (last (c # fs)) of Inr x \<Rightarrow> Some x | Inl e \<Rightarrow> None))"
proof (induction cs arbitrary: d)
  case Nil
  then show ?case by simp
next
  case (Cons child rest)
  from Cons.prems obtain t x where t: "etree_tag child = Some t"
    and x: "XmlElement_init child = Inr x"
    and r: "init_children rest (AList.update (child_key t) x d) = Inr d'"
    by (auto split: option.splits sum.splits)
  have ln: "local_name child = Some (child_key t)"
    by (simp add: local_name_def t child_key_after_last_brace)
  note ih = Cons.IH [OF r]
  show ?case
  proof (cases "filter (\<lambda>c. local_name c = Some k) rest")
    case Nil
    then show ?thesis using ih ln x by (auto simp: update_conv')
  next
    case (Cons f fs)
    then show ?thesis using ih ln by auto
  qed
qed

lemma getitem_child_named:
  assumes "XmlElement_init n = Inr xe"
  shows "getitem xe k = (case child_named k n of None \<Rightarrow> Inl KeyError | Some c \<Rightarrow> XmlElement_init c)"
proof (cases n)
  case NonElement
  then show ?thesis using assms by (auto simp: getitem_def child_named_def)
next
  case (Element t a x cs)
  with assms obtain d where d: "init_children cs [] = Inr d" and xe: "xe = MkXmlElement d n"
    by (auto split: sum.splits)
  note m = init_children_map_of [OF d, of k]
  show ?thesis
  proof (cases "filter (\<lambda>c. local_name c = Some k) cs")
    case Nil
    then show ?thesis using m xe Element by (simp add: getitem_def child_named_def)
  next
    case (Cons f fs)
    have "last (f # fs) \<in> set (filter (\<lambda>c. local_name c = Some k) cs)"
      unfolding Cons by (rule last_in_set) simp
    then have "last (f # fs) \<in> set cs" by simp
    from init_children_each [OF d this] obtain y where
      y: "XmlElement_init (last (f # fs)) = Inr y" ..
    show ?thesis using m xe Element Cons y by (simp add: getitem_def child_named_def)
  qed
qed

lemma child_named_below:
  "child_named k n = Some c \<Longrightarrow> elements_below n \<Longrightarrow> elements_below c"
proof -
  assume c: "child_named k n = Some c" and e: "elements_below n"
  from c obtain f fs where f: "filter (\<lambda>c. local_name c = Some k) (etree_children n) = f # fs"
    and l: "c = last (f # fs)"
    by (auto simp: child_named_def split: list.splits)
  have "last (f # fs) \<in> set (filter (\<lambda>c. local_name c = Some k) (etree_children n))"
    unfolding f by (rule last_in_set) simp
  then have "c \<in> set (etree_children n)" using l by simp
  then show ?thesis using e by (cases n) auto
qed

lemma system_child_named:
  assumes "XmlElement_init tree = Inr root" and "elements_below tree"
    and "child_named ''System'' tree = Some sys" and "child_named k sys = Some c"
  shows "\<exists>x. system_child root k = Inr x \<and> xe_node x = c"
proof -
  have bs: "elements_below sys" by (rule child_named_below [OF assms(3,2)])
  then obtain sx where sx: "XmlElement_init sys = Inr sx" using XmlElement_total by blast
  have "elements_below c" by (rule child_named_below [OF assms(4) bs])
  then obtain x where x: "XmlElement_init c = Inr x" using XmlElement_total by blast
  have g1: "getitem root ''System'' = Inr sx"
    using getitem_child_named [OF assms(1), of "''System''"] assms(3) sx by simp
  have g2: "getitem sx k = Inr x"
    using getitem_child_named [OF sx, of k] assms(4) x by simp
  show ?thesis using g1 g2 XmlElement_node [OF x] by (simp add: system_child_def)
qed

text \<open>What an access and the condition of the search loop do on a well-formed event.\<close>

lemma parse_data_decoded:
  assumes "\<not> er_parsed r" and "decoded XML (without_prolog (er_data r)) = Some (p, e)"
  shows "\<exists>lv. parse_data XML r =
           (Inr (), r\<lparr> er_data := without_prolog (er_data r),
                      er_attrib := (er_attrib r)(''EventID'' \<mapsto> Some e, ''Level'' \<mapsto> lv,
                                                 ''Provider'' \<mapsto> Some p) \<rparr>)"
proof -
  let ?body = "without_prolog (er_data r)"
  from assms(2) obtain tree where tree: "XML ?body = Inr tree" and below: "elements_below tree"
    and fields: "event_fields tree = Some (p, e)"
    by (auto simp: decoded_def split: sum.splits if_splits)
  from fields obtain sys pv ev lv where sys: "child_named ''System'' tree = Some sys"
    and pv: "child_named ''Provider'' sys = Some pv"
    and ev: "child_named ''EventID'' sys = Some ev"
    and lv: "child_named ''Level'' sys = Some lv"
    and nm: "etree_attrib pv ''Name'' = Some p" and tx: "etree_text ev = Some e"
    by (auto simp: event_fields_def split: option.splits)
  from XmlElement_total [OF below] obtain root where root: "XmlElement_init tree = Inr root" ..
  from system_child_named [OF root below sys ev] obtain evx where
    evx: "system_child root ''EventID'' = Inr evx" "xe_node evx = ev" by blast
  from system_child_named [OF root below sys lv] obtain lvx where
    lvx: "system_child root ''Level'' = Inr lvx" "xe_node lvx = lv" by blast
  from system_child_named [OF root below sys pv] obtain pvx where
    pvx: "system_child root ''Provider'' = Inr pvx" "xe_node pvx = pv" by blast
  have r1: "(if py_find (er_data r) ''?>'' \<noteq> - 1
             then r\<lparr>er_data := slice_from (er_data r) (py_find (er_data r) ''?>'' + 2)\<rparr> else r)
            = r\<lparr>er_data := ?body\<rparr>"
    using cut_without_prolog [of "er_data r"] by (auto simp: Let_def)
  have "parse_data XML r =
           (Inr (), r\<lparr> er_data := ?body,
                      er_attrib := (er_attrib r)(''EventID'' \<mapsto> Some e, ''Level'' \<mapsto> etree_text lv,
                                                 ''Provider'' \<mapsto> Some p) \<rparr>)"
    using assms(1) tree root evx lvx pvx nm tx
    by (simp add: parse_data_def Let_def r1 xe_text_def xe_attrib_def)
  then show ?thesis by blast
qed

lemma access_decoded:
  assumes "\<not> er_parsed r" and "decoded XML (without_prolog (er_data r)) = Some (p, e)"
  shows "\<exists>r'. Provider XML r = (Inr (Some p), r') \<and> EventID XML r = (Inr (Some e), r')
            \<and> \<not> er_parsed r' \<and> er_data r' = without_prolog (er_data r)
            \<and> er_id r' = er_id r \<and> er_timestamp r' = er_timestamp r"
proof -
  from parse_data_decoded [OF assms] obtain lv where
    "parse_data XML r =
           (Inr (), r\<lparr> er_data := without_prolog (er_data r),
                      er_attrib := (er_attrib r)(''EventID'' \<mapsto> Some e, ''Level'' \<mapsto> lv,
                                                 ''Provider'' \<mapsto> Some p) \<rparr>)" ..
  then show ?thesis using assms(1)
    by (simp add: Provider_def EventID_def parsed_attrib_def)
qed

lemma search_condition_well_formed:
  assumes "\<not> er_parsed r" and "well_formed_event XML (er_data r)"
  shows "\<exists>r'. search_condition XML text checked r = (Inr (term_matches XML text checked r), r')
            \<and> \<not> er_parsed r' \<and> er_data r' = without_prolog (er_data r)
            \<and> er_id r' = er_id r \<and> er_timestamp r' = er_timestamp r"
proof -
  let ?body = "without_prolog (er_data r)"
  from assms(2) obtain p e where dec: "decoded XML ?body = Some (p, e)"
    and plain: "\<not> py_in ''?>'' ?body"
    by (auto simp: well_formed_event_def)
  have tm: "term_matches XML text checked r
              = (py_in text p \<or> py_in text e \<or> (checked \<and> py_in text ?body))"
    using dec by (simp add: term_matches_def EventRecord_data_def Let_def)
  from access_decoded [OF assms(1) dec] obtain r1 where
    p1: "Provider XML r = (Inr (Some p), r1)" and np1: "\<not> er_parsed r1"
    and d1: "er_data r1 = ?body" and f1: "er_id r1 = er_id r" "er_timestamp r1 = er_timestamp r"
    by blast
  have b1: "without_prolog (er_data r1) = ?body" using d1 plain by (simp add: without_prolog_none)
  then have dec1: "decoded XML (without_prolog (er_data r1)) = Some (p, e)" using dec by simp
  from access_decoded [OF np1 dec1] obtain r2 where
    p2: "EventID XML r1 = (Inr (Some e), r2)" and np2: "\<not> er_parsed r2"
    and d2: "er_data r2 = ?body" and f2: "er_id r2 = er_id r" "er_timestamp r2 = er_timestamp r"
    using b1 f1 by auto
  show ?thesis
  proof (cases "py_in text p")
    case True
    then show ?thesis using p1 np1 d1 f1 tm
      by (simp add: search_condition_def py_contains_def)
  next
    case False
    then show ?thesis using p1 p2 np2 d2 f2 tm
      by (cases "py_in text e") (simp_all add: search_condition_def py_contains_def EventRecord_data_def)
  qed
qed

lemma search_condition_meaning:
  assumes "Provider XML r = (Inr (Some p), r1)" and "EventID XML r1 = (Inr (Some e), r2)"
  shows "fst (search_condition XML text checked r) =
           Inr (py_in text p \<or> py_in text e \<or> (checked \<and> py_in text (EventRecord_data r2)))"
  using assms by (auto simp: search_condition_def py_contains_def split: bool.splits)

lemma map_filter_map_cong:
  "(\<forall>j \<in> set ks. g (f' j) = g (f j) \<and> P (f' j) = P (f j)) \<Longrightarrow>
     map g (filter P (map f' ks)) = map g (filter P (map f ks))"
  by (induction ks) auto

lemma term_matches_body:
  "without_prolog (er_data r') = without_prolog (er_data r) \<Longrightarrow>
     term_matches XML t c r' = term_matches XML t c r"
  by (simp add: term_matches_def EventRecord_data_def)

lemma search_records_matches:
  assumes "\<forall>k \<in> set ids. \<exists>r. d k = Some r \<and> \<not> er_parsed r \<and> well_formed_event XML (er_data r)"
  shows "fst (search_records XML t c ids d fnd) =
           Inr (fnd @ map (\<lambda>r. (EventRecord_id r, EventRecord_timestamp r))
                         (filter (term_matches XML t c) (map (\<lambda>k. the (d k)) ids)))"
  using assms
proof (induction ids arbitrary: d fnd)
  case Nil
  then show ?case by simp
next
  case (Cons k ks)
  let ?entry = "\<lambda>r. (EventRecord_id r, EventRecord_timestamp r)"
  from Cons.prems obtain r where r: "d k = Some r" and np: "\<not> er_parsed r"
    and wf: "well_formed_event XML (er_data r)" by auto
  from search_condition_well_formed [OF np wf, of t c] obtain r' where
    sc: "search_condition XML t c r = (Inr (term_matches XML t c r), r')"
    and np': "\<not> er_parsed r'" and d': "er_data r' = without_prolog (er_data r)"
    and f': "er_id r' = er_id r" "er_timestamp r' = er_timestamp r" by blast
  have plain: "\<not> py_in ''?>'' (without_prolog (er_data r))"
    using wf by (simp add: well_formed_event_def)
  have b': "without_prolog (er_data r') = without_prolog (er_data r)"
    using d' plain by (simp add: without_prolog_none)
  have wf': "well_formed_event XML (er_data r')"
    using wf b' by (simp add: well_formed_event_def)
  have e': "?entry r' = ?entry r"
    using f' by (simp add: EventRecord_id_def EventRecord_timestamp_def)
  have m': "term_matches XML t c r' = term_matches XML t c r" by (rule term_matches_body [OF b'])
  let ?d = "d(k \<mapsto> r')"
  have pre: "\<forall>j \<in> set ks. \<exists>r. ?d j = Some r \<and> \<not> er_parsed r \<and> well_formed_event XML (er_data r)"
    using Cons.prems np' wf' by auto
  have same: "map ?entry (filter (term_matches XML t c) (map (\<lambda>j. the (?d j)) ks))
            = map ?entry (filter (term_matches XML t c) (map (\<lambda>j. the (d j)) ks))"
    by (rule map_filter_map_cong) (use r e' m' in auto)
  have step: "search_records XML t c (k # ks) d fnd =
                search_records XML t c ks ?d
                  (if term_matches XML t c r then fnd @ [?entry r'] else fnd)"
    using r sc by simp
  have "fst (search_records XML t c (k # ks) d fnd) =
          Inr ((if term_matches XML t c r then fnd @ [?entry r'] else fnd)
               @ map ?entry (filter (term_matches XML t c) (map (\<lambda>j. the (d j)) ks)))"
    by (simp only: step Cons.IH [OF pre] same)
  then show ?case using r e' by simp
qed

lemma search_model_matches:
  assumes "get_records m = Inr recs"
    and "\<forall>r \<in> set recs. \<not> er_parsed r \<and> well_formed_event XML (er_data r)"
  shows "fst (search_model XML t c m) =
           Inr (map (\<lambda>r. (EventRecord_id r, EventRecord_timestamp r))
                    (filter (term_matches XML t c) recs))"
proof -
  let ?ids = "vm_record_ids m" and ?d = "vm_records m"
  from assms(1) have nth: "length recs = length ?ids"
    "\<forall>i < length ?ids. ?d (?ids ! i) = Some (recs ! i)"
    using records_of_nth [of ?d ?ids recs] by (simp_all add: get_records_def)
  have recs: "map (\<lambda>k. the (?d k)) ?ids = recs"
    using nth by (simp add: list_eq_iff_nth_eq)
  have ok: "\<forall>k \<in> set ?ids. \<exists>r. ?d k = Some r \<and> \<not> er_parsed r \<and> well_formed_event XML (er_data r)"
  proof
    fix k assume "k \<in> set ?ids"
    then obtain i where i: "i < length ?ids" "?ids ! i = k" by (auto simp: in_set_conv_nth)
    then have "?d k = Some (recs ! i)" "recs ! i \<in> set recs" using nth by auto
    then show "\<exists>r. ?d k = Some r \<and> \<not> er_parsed r \<and> well_formed_event XML (er_data r)"
      using assms(2) by auto
  qed
  from search_records_matches [OF ok, of t c "[]"]
  have "fst (search_records XML t c ?ids ?d []) =
          Inr (map (\<lambda>r. (EventRecord_id r, EventRecord_timestamp r))
                   (filter (term_matches XML t c) recs))"
    by (simp add: recs)
  then show ?thesis using assms(1) by (auto simp: search_model_def split: prod.splits)
qed

lemma action_search_found:
  assumes "mw_files w \<noteq> []" and "text \<noteq> []"
    and "currentWidget (mw_tab_widget w) = Some a"
    and "search_model XML text (searchInEVTData w) (ev_evtxViewModel (mw_views w ! a)) = (Inr fnd, m')"
    and "fnd \<noteq> []"
  shows "found (fst (snd (action_search XML (text, True) w))) = fnd
       \<and> cur_search_index (fst (snd (action_search XML (text, True) w))) = 0
       \<and> fst (action_search XML (text, True) w) = Inr ()"
  using assms by (simp add: action_search_def Let_def display_search_results_def)

lemmas search_defs =
  term_matches_def well_formed_event_def decoded_def event_fields_def child_named_def
  local_name_def after_last_brace_def without_prolog_def search_model_def get_records_def
  search_condition_def py_contains_def
  EventRecord_id_def EventRecord_timestamp_def

text \<open>
  C7, as the code has it. Take a loaded file in which every record is a
  well-formed event: behind the prolog its raw text holds no further \<open>?>\<close> and
  is parsed into a tree of elements whose \<open>System\<close> child has a \<open>Provider\<close> with a
  \<open>Name\<close>, an \<open>EventID\<close> with a text and a \<open>Level\<close>. Then for every search term
  and either state of the raw-text toggle the search loop returns without raising,
  and its result lists the id and timestamp of exactly the records of the
  enumeration that match the term: the term occurs in the provider name, or in the
  text of the event id, or, the toggle being on, in the raw text behind the
  prolog. The result is in the order of the enumeration, ascending in the record
  id, strictly when the ids of the file are distinct.
\<close>

theorem search_finds_matching_records:
  assumes "PyEvtxParser filename = Inr rs"
    and "\<forall>x \<in> set rs. well_formed_event XML (data x)"
  shows "\<exists>m recs fnd. EvtxViewModel_init PyEvtxParser filename = Inr m
           \<and> get_records m = Inr recs
           \<and> fst (search_model XML text checked m) = Inr fnd
           \<and> fnd = map (\<lambda>r. (EventRecord_id r, EventRecord_timestamp r))
                       (filter (term_matches XML text checked) recs)
           \<and> sorted (map fst fnd)
           \<and> (distinct (map event_record_id rs) \<longrightarrow> sorted_wrt (<) (map fst fnd))"
proof -
  let ?empty = "\<lparr> vm_filename = filename, vm_records = Map.empty, vm_record_ids = [],
                      vm_highlighted_row = None \<rparr>"
  let ?ids = "sort (map event_record_id rs)"
  let ?d = "vm_records (load_records rs ?empty)"
  let ?loaded = "\<lparr> vm_filename = filename, vm_records = ?d,
                 vm_record_ids = ?ids, vm_highlighted_row = None \<rparr>"
  let ?recs = "map (\<lambda>k. the (?d k)) ?ids"
  let ?entry = "\<lambda>r. (EventRecord_id r, EventRecord_timestamp r)"
  let ?fnd = "map ?entry (filter (term_matches XML text checked) ?recs)"
  have init: "EvtxViewModel_init PyEvtxParser filename = Inr ?loaded"
    using EvtxViewModel_init_Inr [of PyEvtxParser filename rs] assms(1) by simp
  have g: "get_records ?loaded = Inr ?recs"
    using get_records_init [of PyEvtxParser filename rs ?loaded] assms(1) init by simp
  have stored: "\<exists>r. ?d j = Some r" if "j \<in> set ?ids" for j
  proof -
    from that have "j \<in> dom ?d" by (simp only: load_records_dom) auto
    then show ?thesis by auto
  qed
  have fresh: "\<not> er_parsed r \<and> well_formed_event XML (er_data r)" if "r \<in> set ?recs" for r
  proof -
    from that obtain j where j: "j \<in> set ?ids" and r: "r = the (?d j)" by auto
    from stored [OF j] r have "?d j = Some r" by auto
    from load_records_values [OF this] obtain x where "x \<in> set rs" "r = EventRecord_init x"
      by auto
    then show ?thesis using assms(2) by (simp add: EventRecord_init_def)
  qed
  have res: "fst (search_model XML text checked ?loaded) = Inr ?fnd"
    by (rule search_model_matches [OF g]) (use fresh in blast)
  have key: "EventRecord_id (the (?d j)) = j" if "j \<in> set ?ids" for j
  proof -
    from stored [OF that] obtain r where r: "?d j = Some r" ..
    from load_records_key [OF r] show ?thesis using r by (simp add: EventRecord_id_def)
  qed
  have "map (\<lambda>j. EventRecord_id (the (?d j))) ?ids = ?ids"
    by (intro map_idI) (use key in simp)
  then have ids: "map EventRecord_id ?recs = ?ids" by (simp add: comp_def)
  have fst_fnd: "map fst ?fnd = map EventRecord_id (filter (term_matches XML text checked) ?recs)"
    by (simp add: comp_def)
  have "sorted (map EventRecord_id ?recs)" by (simp only: ids) simp
  then have "sorted_wrt (\<lambda>x y. EventRecord_id x \<le> EventRecord_id y) ?recs"
    by (simp only: sorted_map)
  then have "sorted_wrt (\<lambda>x y. EventRecord_id x \<le> EventRecord_id y)
               (filter (term_matches XML text checked) ?recs)"
    by (rule sorted_wrt_filter)
  then have asc: "sorted (map fst ?fnd)" by (simp only: fst_fnd sorted_map)
  have strict: "sorted_wrt (<) (map fst ?fnd)" if "distinct (map event_record_id rs)"
  proof -
    from that have "sorted_wrt (<) (map EventRecord_id ?recs)"
      by (simp only: ids) (simp add: strict_sorted_iff)
    then have "sorted_wrt (\<lambda>x y. EventRecord_id x < EventRecord_id y) ?recs"
      by (simp only: sorted_wrt_map)
    then have "sorted_wrt (\<lambda>x y. EventRecord_id x < EventRecord_id y)
                 (filter (term_matches XML text checked) ?recs)"
      by (rule sorted_wrt_filter)
    then show ?thesis by (simp only: fst_fnd sorted_wrt_map)
  qed
  show ?thesis
    using init g res asc strict
    by (intro exI [of _ ?loaded] exI [of _ ?recs] exI [of _ ?fnd]) simp
qed

theorem search_finds_matching_records_witness:
  "well_formed_event
     (\<lambda>s. if s = event_text ''kernel'' ''1'' ''4'' then Inr (event_tree ''kernel'' ''1'' ''4'')
           else parser_of (event_text ''svc'' ''4624'' ''4'') (event_tree ''svc'' ''4624'' ''4'') s)
     (data \<lparr> event_record_id = 2, timestamp = ''t2'',
             data = ''<?xml version='1.0'?>'' @ event_text ''svc'' ''4624'' ''4'' \<rparr>)
   \<and> well_formed_event
     (\<lambda>s. if s = event_text ''kernel'' ''1'' ''4'' then Inr (event_tree ''kernel'' ''1'' ''4'')
           else parser_of (event_text ''svc'' ''4624'' ''4'') (event_tree ''svc'' ''4624'' ''4'') s)
     (data \<lparr> event_record_id = 1, timestamp = ''t1'', data = event_text ''kernel'' ''1'' ''4'' \<rparr>)
   \<and> (\<exists>m. EvtxViewModel_init
             (\<lambda>f. Inr [\<lparr> event_record_id = 2, timestamp = ''t2'',
                          data = ''<?xml version='1.0'?>'' @ event_text ''svc'' ''4624'' ''4'' \<rparr>,
                        \<lparr> event_record_id = 1, timestamp = ''t1'',
                          data = event_text ''kernel'' ''1'' ''4'' \<rparr>]) ''a.evtx'' = Inr m
          \<and> fst (search_model
                 (\<lambda>s. if s = event_text ''kernel'' ''1'' ''4''
                       then Inr (event_tree ''kernel'' ''1'' ''4'')
                       else parser_of (event_text ''svc'' ''4624'' ''4'')
                              (event_tree ''svc'' ''4624'' ''4'') s)
                 ''sv'' True m)
              = Inr [(2, ''t2'')])"
proof -
  let ?x2 = "\<lparr> event_record_id = 2, timestamp = ''t2'',
                data = ''<?xml version='1.0'?>'' @ event_text ''svc'' ''4624'' ''4'' \<rparr>"
  let ?x1 = "\<lparr> event_record_id = 1, timestamp = ''t1'', data = event_text ''kernel'' ''1'' ''4'' \<rparr>"
  let ?XML = "\<lambda>s. if s = event_text ''kernel'' ''1'' ''4'' then Inr (event_tree ''kernel'' ''1'' ''4'')
                 else parser_of (event_text ''svc'' ''4624'' ''4'') (event_tree ''svc'' ''4624'' ''4'') s"
  let ?P = "\<lambda>f::string. (Inr [?x2, ?x1] :: py_error + raw_record list)"
  let ?m = "\<lparr> vm_filename = ''a.evtx'',
              vm_records = [2 \<mapsto> EventRecord_init ?x2, 1 \<mapsto> EventRecord_init ?x1],
              vm_record_ids = [1, 2], vm_highlighted_row = None \<rparr>"
  have w2: "well_formed_event ?XML (data ?x2)" by (simp add: search_defs eval_defs)
  have w1: "well_formed_event ?XML (data ?x1)" by (simp add: search_defs eval_defs)
  have wf: "\<forall>x \<in> set [?x2, ?x1]. well_formed_event ?XML (data x)" using w1 w2 by simp
  have p: "?P ''a.evtx'' = Inr [?x2, ?x1]" by simp
  have i: "EvtxViewModel_init ?P ''a.evtx'' = Inr ?m"
    by (simp add: EvtxViewModel_init_def load_data_def)
  have g: "get_records ?m = Inr [EventRecord_init ?x1, EventRecord_init ?x2]"
    by (simp add: get_records_def)
  have t1: "\<not> term_matches ?XML ''sv'' True (EventRecord_init ?x1)"
    by (simp add: search_defs eval_defs)
  have t2: "term_matches ?XML ''sv'' True (EventRecord_init ?x2)"
    by (simp add: search_defs eval_defs)
  from search_finds_matching_records [of ?P "''a.evtx''" "[?x2, ?x1]" ?XML "''sv''" True, OF p wf]
  obtain m recs fnd where
    "EvtxViewModel_init ?P ''a.evtx'' = Inr m" "get_records m = Inr recs"
    "fst (search_model ?XML ''sv'' True m) = Inr fnd"
    "fnd = map (\<lambda>r. (EventRecord_id r, EventRecord_timestamp r))
               (filter (term_matches ?XML ''sv'' True) recs)" by blast
  then have "fst (search_model ?XML ''sv'' True ?m)
               = Inr (map (\<lambda>r. (EventRecord_id r, EventRecord_timestamp r))
                       (filter (term_matches ?XML ''sv'' True)
                          [EventRecord_init ?x1, EventRecord_init ?x2]))"
    using i g by simp
  then have "fst (search_model ?XML ''sv'' True ?m) = Inr [(2, ''t2'')]"
    using t1 t2 by (simp add: EventRecord_id_def EventRecord_timestamp_def EventRecord_init_def)
  with i w1 w2 show ?thesis by blast
qed

text \<open>
  C7 as stated fails: the raw text of the loaded record holds the term \<open>version\<close>
  in its prolog, the raw-text toggle is on, and the search finds no record.
\<close>

theorem prolog_match_counterexample:
  "py_in ''version''
     (data \<lparr> event_record_id = 1, timestamp = ''t1'',
             data = ''<?xml version='1.0'?>'' @ event_text ''svc'' ''4624'' ''4'' \<rparr>)
   \<and> EvtxViewModel_init
       (\<lambda>f. Inr [\<lparr> event_record_id = 1, timestamp = ''t1'',
                    data = ''<?xml version='1.0'?>'' @ event_text ''svc'' ''4624'' ''4'' \<rparr>])
       ''a.evtx''
     = Inr \<lparr> vm_filename = ''a.evtx'',
             vm_records =
               [1 \<mapsto> EventRecord_init
                      \<lparr> event_record_id = 1, timestamp = ''t1'',
                        data = ''<?xml version='1.0'?>'' @ event_text ''svc'' ''4624'' ''4'' \<rparr>],
             vm_record_ids = [1], vm_highlighted_row = None \<rparr>
   \<and> fst (search_model
           (parser_of (event_text ''svc'' ''4624'' ''4'') (event_tree ''svc'' ''4624'' ''4''))
           ''version'' True
           \<lparr> vm_filename = ''a.evtx'',
             vm_records =
               [1 \<mapsto> EventRecord_init
                      \<lparr> event_record_id = 1, timestamp = ''t1'',
                        data = ''<?xml version='1.0'?>'' @ event_text ''svc'' ''4624'' ''4'' \<rparr>],
             vm_record_ids = [1], vm_highlighted_row = None \<rparr>)
     = Inr []"
  by (simp add: EvtxViewModel_init_def load_data_def search_defs eval_defs)

subsection \<open>Opening a file that is already open\<close>

text \<open>
  For a file name found in \<open>__files\<close>, \<open>open_file\<close> changes neither \<open>__files\<close> nor
  the pages of the tab widget nor any view.
\<close>

lemma open_file_already_open:
  assumes "map_of (mw_files w) filename = Some index"
  shows "mw_files (snd (open_file PyEvtxParser filename w)) = mw_files w
       \<and> tw_pages (mw_tab_widget (snd (open_file PyEvtxParser filename w)))
           = tw_pages (mw_tab_widget w)
       \<and> mw_views (snd (open_file PyEvtxParser filename w)) = mw_views w"
  using assms by (simp add: open_file_def setCurrentIndex_def)

lemmas window_defs =
  open_file_def close_tab_def MainWindow_init_def EvtxView_init_def EvtxViewModel_init_def
  load_data_def addTab_def setCurrentIndex_def removeTab_def currentWidget_def Let_def

text \<open>
  C10, on the code. Three files are opened, then the first tab is closed:
  \<open>close_tab\<close> drops the entry of the closed tab and keeps the indices of the
  others, while the tab widget moves the other pages down by one. Opening
  \<open>B.evtx\<close> again finds it in \<open>__files\<close> with index 1 and selects the page at
  position 1, which now shows \<open>C.evtx\<close>; the page of \<open>B.evtx\<close> is at position 0.
\<close>

theorem reopen_after_close_selects_other_tab:
  "map_of (mw_files
      (close_tab 0
        (snd (open_file (\<lambda>f. Inr []) ''C.evtx''
          (snd (open_file (\<lambda>f. Inr []) ''B.evtx''
            (snd (open_file (\<lambda>f. Inr []) ''A.evtx'' MainWindow_init)))))))) ''B.evtx'' = Some 1
   \<and> map (\<lambda>a. vm_filename (ev_evtxViewModel (mw_views
        (snd (open_file (\<lambda>f. Inr []) ''B.evtx''
          (close_tab 0
            (snd (open_file (\<lambda>f. Inr []) ''C.evtx''
              (snd (open_file (\<lambda>f. Inr []) ''B.evtx''
                (snd (open_file (\<lambda>f. Inr []) ''A.evtx'' MainWindow_init))))))))) ! a)))
       (tw_pages (mw_tab_widget
        (snd (open_file (\<lambda>f. Inr []) ''B.evtx''
          (close_tab 0
            (snd (open_file (\<lambda>f. Inr []) ''C.evtx''
              (snd (open_file (\<lambda>f. Inr []) ''B.evtx''
                (snd (open_file (\<lambda>f. Inr []) ''A.evtx'' MainWindow_init)))))))))))
     = [''B.evtx'', ''C.evtx'']
   \<and> tw_currentIndex (mw_tab_widget
        (snd (open_file (\<lambda>f. Inr []) ''B.evtx''
          (close_tab 0
            (snd (open_file (\<lambda>f. Inr []) ''C.evtx''
              (snd (open_file (\<lambda>f. Inr []) ''B.evtx''
                (snd (open_file (\<lambda>f. Inr []) ''A.evtx'' MainWindow_init)))))))))) = 1"
  by (simp add: window_defs)

end
